theory Spec2Isabelle
  imports Complex_Main
begin

chapter \<open>The model\<close>

section \<open>JavaScript string primitives\<close>

text \<open>
  Strings are lists of characters. The definitions below are the \<^verbatim>\<open>String.prototype\<close>
  methods and the anchored one-shot regular-expression replacements that the checker scripts use.
\<close>

definition startsWith :: "string \<Rightarrow> string \<Rightarrow> bool" where
  "startsWith s p = (take (length p) s = p)"

definition endsWith :: "string \<Rightarrow> string \<Rightarrow> bool" where
  "endsWith s p = (length p \<le> length s \<and> drop (length s - length p) s = p)"

text \<open>\<^verbatim>\<open>s.replace(/^\//, '')\<close>: drops one leading slash.\<close>

fun stripLeadingSlash :: "string \<Rightarrow> string" where
  "stripLeadingSlash [] = []"
| "stripLeadingSlash (c # cs) = (if c = CHR ''/'' then cs else c # cs)"

text \<open>\<^verbatim>\<open>s.replace(/\.md$/, '')\<close>: drops one trailing \<^verbatim>\<open>.md\<close>.\<close>

definition stripMdSuffix :: "string \<Rightarrow> string" where
  "stripMdSuffix s = (if endsWith s ''.md'' then take (length s - 3) s else s)"

text \<open>
  A character stands for one UTF-16 code unit below 256 (the Latin-1 range); \<open>code\<close> is its
  number. The character classes are those of the regular expressions without the unicode flag:
  \<^verbatim>\<open>\w\<close> is \<^verbatim>\<open>[A-Za-z0-9_]\<close>, and \<^verbatim>\<open>\s\<close> in this range is tab, line feed, vertical tab,
  form feed, carriage return, space and the no-break space.
\<close>

definition code :: "char \<Rightarrow> nat" where
  "code c = of_char c"

definition isWordChar :: "char \<Rightarrow> bool" where
  "isWordChar c =
     ((97 \<le> code c \<and> code c \<le> 122) \<or> (65 \<le> code c \<and> code c \<le> 90)
      \<or> (48 \<le> code c \<and> code c \<le> 57) \<or> code c = 95)"

definition isSpaceChar :: "char \<Rightarrow> bool" where
  "isSpaceChar c = (code c \<in> {9, 10, 11, 12, 13, 32, 160})"

definition isHyphen :: "char \<Rightarrow> bool" where
  "isHyphen c = (c = CHR ''-'')"

text \<open>
  \<^verbatim>\<open>toLowerCase\<close> on this range moves \<^verbatim>\<open>A-Z\<close> and the accented capitals
  \<^verbatim>\<open>U+00C0-U+00DE\<close> (without the multiplication sign \<^verbatim>\<open>U+00D7\<close>) up by 32.
\<close>

definition toLowerCaseChar :: "char \<Rightarrow> char" where
  "toLowerCaseChar c =
     (if (65 \<le> code c \<and> code c \<le> 90) \<or> (192 \<le> code c \<and> code c \<le> 222 \<and> code c \<noteq> 215)
      then char_of (code c + 32) else c)"

definition toLowerCase :: "string \<Rightarrow> string" where
  "toLowerCase s = map toLowerCaseChar s"

text \<open>
  \<^verbatim>\<open>s.replace(/X+/g, r)\<close> for a character class \<open>X\<close>: every maximal run of characters of
  the class is replaced by \<open>r\<close>.
\<close>

function replaceRuns :: "(char \<Rightarrow> bool) \<Rightarrow> string \<Rightarrow> string \<Rightarrow> string" where
  "replaceRuns P r [] = []"
| "replaceRuns P r (c # cs) =
     (if P c then r @ replaceRuns P r (dropWhile P cs) else c # replaceRuns P r cs)"
  by pat_completeness auto
termination
  by (relation "measure (\<lambda>(P, r, s). length s)") (auto simp: length_dropWhile_le less_Suc_eq_le)

text \<open>
  \<^verbatim>\<open>s.replace(/^-|-$/g, '')\<close>: the first alternative removes a hyphen at position 0; the
  scan then continues behind it, where only the second alternative can still match, at the
  last position.
\<close>

definition trimHyphens :: "string \<Rightarrow> string" where
  "trimHyphens s =
     (let s1 = (if s \<noteq> [] \<and> hd s = CHR ''-'' then tl s else s)
      in if s1 \<noteq> [] \<and> last s1 = CHR ''-'' then butlast s1 else s1)"

section \<open>Anchor ids (link-checker/parsers/markdown.ts)\<close>

definition generateAnchorId :: "string \<Rightarrow> string" where
  "generateAnchorId text =
     trimHyphens
       (replaceRuns isHyphen ''-''
         (replaceRuns isSpaceChar ''-''
           (filter (\<lambda>c. isWordChar c \<or> isSpaceChar c \<or> c = CHR ''-'')
             (toLowerCase text))))"

section \<open>Redirect table (shared/types.ts, shared/gitbook-yaml.ts)\<close>

record RedirectEntry =
  re_from :: string
  re_to :: string
  re_line :: nat

record RedirectMap =
  entries :: "RedirectEntry list"
  fromToMap :: "string \<rightharpoonup> string"
  toFromMap :: "string \<rightharpoonup> string list"

definition findRedirectTarget :: "RedirectMap \<Rightarrow> string \<Rightarrow> string option" where
  "findRedirectTarget redirectMap fromPath =
     (if fromToMap redirectMap fromPath \<noteq> None then fromToMap redirectMap fromPath
      else
        let withoutSlash = stripLeadingSlash fromPath in
        if fromToMap redirectMap withoutSlash \<noteq> None then fromToMap redirectMap withoutSlash
        else
          let withoutMd = stripMdSuffix fromPath in
          if fromToMap redirectMap withoutMd \<noteq> None then fromToMap redirectMap withoutMd
          else
            let withoutBoth = stripMdSuffix withoutSlash in
            if fromToMap redirectMap withoutBoth \<noteq> None then fromToMap redirectMap withoutBoth
            else None)"

text \<open>The four keys of a lookup, in the order in which they are tried.\<close>

definition lookupKeys :: "string \<Rightarrow> string list" where
  "lookupKeys fromPath =
     [fromPath, stripLeadingSlash fromPath, stripMdSuffix fromPath,
      stripMdSuffix (stripLeadingSlash fromPath)]"

section \<open>Auxiliary predicates\<close>

text \<open>
  The shape of a generated anchor id: lower-case word characters and hyphens only, no two
  hyphens in a row, no hyphen at either end.
\<close>

definition slugChar :: "char \<Rightarrow> bool" where
  "slugChar c =
     ((97 \<le> code c \<and> code c \<le> 122) \<or> (48 \<le> code c \<and> code c \<le> 57) \<or> code c = 95
      \<or> c = CHR ''-'')"

fun noHyphenPair :: "string \<Rightarrow> bool" where
  "noHyphenPair (a # b # r) = (\<not> (a = CHR ''-'' \<and> b = CHR ''-'') \<and> noHyphenPair (b # r))"
| "noHyphenPair _ = True"

definition isSlug :: "string \<Rightarrow> bool" where
  "isSlug s =
     (list_all slugChar s \<and> noHyphenPair s
      \<and> (s = [] \<or> (hd s \<noteq> CHR ''-'' \<and> last s \<noteq> CHR ''-'')))"

section \<open>More string primitives\<close>

text \<open>\<^verbatim>\<open>s.includes(p)\<close>.\<close>

fun includesStr :: "string \<Rightarrow> string \<Rightarrow> bool" where
  "includesStr [] p = (p = [])"
| "includesStr (c # cs) p = (startsWith (c # cs) p \<or> includesStr cs p)"

text \<open>\<^verbatim>\<open>s.split(d)\<close> for a one-character separator; the empty string gives one empty piece.\<close>

fun splitOn :: "char \<Rightarrow> string \<Rightarrow> string list" where
  "splitOn d [] = [[]]"
| "splitOn d (c # cs) =
     (if c = d then [] # splitOn d cs
      else (case splitOn d cs of [] \<Rightarrow> [[c]] | x # xs \<Rightarrow> (c # x) # xs))"

text \<open>\<^verbatim>\<open>pieces.join(sep)\<close>.\<close>

fun joinWith :: "string \<Rightarrow> string list \<Rightarrow> string" where
  "joinWith sep [] = []"
| "joinWith sep [x] = x"
| "joinWith sep (x # y # ys) = x @ sep @ joinWith sep (y # ys)"

text \<open>\<^verbatim>\<open>s.replace(/\\/g, '/')\<close>.\<close>

definition backslashesToSlashes :: "string \<Rightarrow> string" where
  "backslashesToSlashes s = map (\<lambda>c. if c = CHR 0x5C then CHR ''/'' else c) s"

text \<open>\<^verbatim>\<open>s.replace(/\/+$/, '')\<close>: drops all trailing slashes.\<close>

definition stripTrailingSlashes :: "string \<Rightarrow> string" where
  "stripTrailingSlashes s = rev (dropWhile (\<lambda>c. c = CHR ''/'') (rev s))"

text \<open>\<^verbatim>\<open>s.replace(/^\.\//, '')\<close>: drops one leading \<^verbatim>\<open>./\<close>.\<close>

definition stripLeadingDotSlash :: "string \<Rightarrow> string" where
  "stripLeadingDotSlash s = (if startsWith s ''./'' then drop 2 s else s)"

section \<open>The path module of Node.js, POSIX flavour\<close>

text \<open>
  \<^verbatim>\<open>path.normalize\<close>, \<^verbatim>\<open>path.join\<close> and \<^verbatim>\<open>path.dirname\<close> are library functions. They are
  modelled after the POSIX implementation of Node.js: a path is cut at its slashes, empty and
  \<^verbatim>\<open>.\<close> segments vanish, and \<^verbatim>\<open>..\<close> removes the segment before it (or stays, in a relative
  path that has nothing left to remove). The segment stack is kept in reverse.
\<close>

definition normStep :: "bool \<Rightarrow> string list \<Rightarrow> string \<Rightarrow> string list" where
  "normStep allowAboveRoot res seg =
     (if seg = [] \<or> seg = ''.'' then res
      else if seg = ''..'' then
        (case res of
           [] \<Rightarrow> (if allowAboveRoot then [''..''] else [])
         | seg0 # segs \<Rightarrow>
             if seg0 = ''..'' then (if allowAboveRoot then ''..'' # res else res) else segs)
      else seg # res)"

definition normalizeString :: "string \<Rightarrow> bool \<Rightarrow> string" where
  "normalizeString p allowAboveRoot =
     joinWith ''/'' (rev (foldl (normStep allowAboveRoot) [] (splitOn CHR ''/'' p)))"

definition pathNormalize :: "string \<Rightarrow> string" where
  "pathNormalize p =
     (if p = [] then ''.''
      else
        let isAbsolute = (hd p = CHR ''/'');
            trailingSeparator = (last p = CHR ''/'');
            q = normalizeString p (\<not> isAbsolute)
        in if q = [] then (if isAbsolute then ''/'' else if trailingSeparator then ''./'' else ''.'')
           else (if isAbsolute then ''/'' else []) @ q @ (if trailingSeparator then ''/'' else []))"

definition pathJoin :: "string list \<Rightarrow> string" where
  "pathJoin args =
     (let parts = filter (\<lambda>a. a \<noteq> []) args
      in if parts = [] then ''.'' else pathNormalize (joinWith ''/'' parts))"

text \<open>
  \<^verbatim>\<open>path.dirname\<close> scans from the right, down to index 1: it skips trailing slashes, then the
  last segment, and cuts the path at the slash it meets next.
\<close>

definition pathDirname :: "string \<Rightarrow> string" where
  "pathDirname p =
     (if p = [] then ''.''
      else
        let hasRoot = (hd p = CHR ''/'');
            r = dropWhile (\<lambda>c. c \<noteq> CHR ''/'') (dropWhile (\<lambda>c. c = CHR ''/'') (rev (tl p)))
        in if r = [] then (if hasRoot then ''/'' else ''.'')
           else if hasRoot \<and> length r = 1 then ''//''
           else take (length r) p)"

section \<open>File utilities (shared/file-utils.ts)\<close>

text \<open>
  The disk maps the path of every regular file to its content; paths are the strings handed to
  the \<^verbatim>\<open>fs\<close> module.
\<close>

type_synonym disk = "string \<rightharpoonup> string"

definition fileExists :: "disk \<Rightarrow> string \<Rightarrow> bool" where
  "fileExists fs filePath = (fs filePath \<noteq> None)"

definition normalizePath :: "string \<Rightarrow> string" where
  "normalizePath inputPath =
     stripLeadingDotSlash (stripTrailingSlashes (backslashesToSlashes inputPath))"

definition getDirectory :: "string \<Rightarrow> string" where
  "getDirectory filePath = pathDirname filePath"

definition joinPaths :: "string list \<Rightarrow> string" where
  "joinPaths segments = backslashesToSlashes (pathJoin segments)"

section \<open>Failures\<close>

text \<open>
  A JavaScript function that can throw returns a sum: \<open>Inl\<close> carries the exception, \<open>Inr\<close> the
  value. \<^verbatim>\<open>readFileSync\<close> throws for a path that is not a file.
\<close>

datatype js_error = URIError | IOError string

definition readFile :: "disk \<Rightarrow> string \<Rightarrow> js_error + string" where
  "readFile fs filePath =
     (case fs filePath of None \<Rightarrow> Inl (IOError filePath) | Some content \<Rightarrow> Inr content)"

definition writeFile :: "disk \<Rightarrow> string \<Rightarrow> string \<Rightarrow> disk" where
  "writeFile fs filePath content = fs(filePath \<mapsto> content)"

section \<open>Link path cleaning (shared/path-utils.ts)\<close>

text \<open>
  The builtin \<^verbatim>\<open>decodeURIComponent\<close> is a parameter of the model: a function that returns the
  decoded string or throws \<^verbatim>\<open>URIError\<close>. \<open>decodeLink\<close> wraps it in \<^verbatim>\<open>try\<close> and \<^verbatim>\<open>catch\<close>.
\<close>

type_synonym decoder = "string \<Rightarrow> js_error + string"

definition decodeLink :: "decoder \<Rightarrow> string \<Rightarrow> js_error + string" where
  "decodeLink decodeURIComponent link =
     (case decodeURIComponent link of Inr decoded \<Rightarrow> Inr decoded | Inl e \<Rightarrow> Inr link)"

text \<open>
  \<^verbatim>\<open>s.replace(/\\X/g, 'X')\<close> for a character \<open>X\<close>: every backslash that is followed by \<open>X\<close>
  is dropped, scanning from the left without overlap.
\<close>

fun unescapeChar :: "char \<Rightarrow> string \<Rightarrow> string" where
  "unescapeChar x (a # b # r) =
     (if a = CHR 0x5C \<and> b = x then x # unescapeChar x r else a # unescapeChar x (b # r))"
| "unescapeChar x s = s"

definition unescapeMarkdown :: "string \<Rightarrow> string" where
  "unescapeMarkdown s = unescapeChar CHR '' '' (unescapeChar CHR ''#'' (unescapeChar CHR ''_'' s))"

definition cleanLinkPath :: "decoder \<Rightarrow> string \<Rightarrow> js_error + string" where
  "cleanLinkPath decodeURIComponent link =
     (case decodeLink decodeURIComponent link of
        Inl e \<Rightarrow> Inl e
      | Inr decoded \<Rightarrow> Inr (unescapeMarkdown decoded))"

text \<open>
  A sample decoder for closed examples: the builtin on strings whose escapes are single bytes
  below \<^verbatim>\<open>%80\<close> or the two-byte sequences of the code points \<^verbatim>\<open>U+0080\<close> to \<^verbatim>\<open>U+00FF\<close>. A
  percent sign that is not followed by two hexadecimal digits, a lone continuation byte and a
  truncated sequence throw. Escapes of code points above \<^verbatim>\<open>U+00FF\<close> have no counterpart among
  the strings of this model and are treated like malformed ones.
\<close>

definition hexVal :: "char \<Rightarrow> nat option" where
  "hexVal c =
     (if 48 \<le> code c \<and> code c \<le> 57 then Some (code c - 48)
      else if 65 \<le> code c \<and> code c \<le> 70 then Some (code c - 55)
      else if 97 \<le> code c \<and> code c \<le> 102 then Some (code c - 87)
      else None)"

definition hexByte :: "string \<Rightarrow> nat option" where
  "hexByte s =
     (case s of
        p # h # l # r \<Rightarrow>
          (if p = CHR ''%'' then
             (case (hexVal h, hexVal l) of (Some a, Some b) \<Rightarrow> Some (16 * a + b) | _ \<Rightarrow> None)
           else None)
      | _ \<Rightarrow> None)"

function sampleDecoder :: "string \<Rightarrow> js_error + string" where
  "sampleDecoder [] = Inr []"
| "sampleDecoder (c # cs) =
     (if c \<noteq> CHR ''%'' then map_sum id (\<lambda>r. c # r) (sampleDecoder cs)
      else
        (case hexByte (c # cs) of
           None \<Rightarrow> Inl URIError
         | Some b \<Rightarrow>
             if b < 128 then map_sum id (\<lambda>r. char_of b # r) (sampleDecoder (drop 2 cs))
             else if b = 194 \<or> b = 195 then
               (case hexByte (drop 2 cs) of
                  None \<Rightarrow> Inl URIError
                | Some k \<Rightarrow>
                    if 128 \<le> k \<and> k < 192
                    then map_sum id (\<lambda>r. char_of ((b - 192) * 64 + (k - 128)) # r)
                           (sampleDecoder (drop 5 cs))
                    else Inl URIError)
             else Inl URIError))"
  by pat_completeness auto
termination
  by (relation "measure length") auto

section \<open>Link records (link-checker/types.ts, shared/types.ts)\<close>

datatype LinkType = Internal | External | AnchorOnly | Asset

text \<open>
  An optional string field is an \<open>option\<close>. Where JavaScript tests such a field for
  truthiness, the empty string counts like \<^verbatim>\<open>undefined\<close>.
\<close>

record ParsedLink =
  link_raw :: string
  link_text :: string
  link_target :: string
  link_anchor :: "string option"
  link_line :: int
  link_column :: int
  link_type :: LinkType

record ResolvedPath =
  rp_resolved :: string
  rp_exists :: bool
  rp_original :: string
  rp_anchor :: "string option"

datatype ValidationStatus = Valid | Broken | RedirectAvailable

record ValidationResult =
  vr_sourceFile :: string
  vr_link :: ParsedLink
  vr_status :: ValidationStatus
  vr_resolvedPath :: "string option"
  vr_error :: "string option"

section \<open>Relative link resolution (shared/path-utils.ts)\<close>

text \<open>
  The split at the first \<^verbatim>\<open>#\<close> (\<^verbatim>\<open>indexOf\<close> and the two \<^verbatim>\<open>substring\<close> calls): the path
  part, and the fragment behind the \<^verbatim>\<open>#\<close> when there is one.
\<close>

definition splitAnchor :: "string \<Rightarrow> string \<times> string option" where
  "splitAnchor linkTarget =
     (if CHR ''#'' \<in> set linkTarget
      then (takeWhile (\<lambda>c. c \<noteq> CHR ''#'') linkTarget,
            Some (drop 1 (dropWhile (\<lambda>c. c \<noteq> CHR ''#'') linkTarget)))
      else (linkTarget, None))"

text \<open>
  The resolution proper, before any fallback: a target with a leading slash is relative to the
  project root, any other target is relative to the directory of the source file.
\<close>

definition resolveTarget :: "string \<Rightarrow> string \<Rightarrow> string" where
  "resolveTarget sourceFile target0 =
     (let target = normalizePath target0;
          sourceDir = pathDirname sourceFile;
          resolved = (if startsWith target ''/'' then drop 1 target
                      else pathJoin [sourceDir, target])
      in normalizePath resolved)"

definition resolveRelativeLink :: "disk \<Rightarrow> string \<Rightarrow> string \<Rightarrow> string \<Rightarrow> ResolvedPath" where
  "resolveRelativeLink fs sourceFile linkTarget projectRoot =
     (let (target, anchor) = splitAnchor linkTarget
      in if target = [] then
           \<lparr>rp_resolved = sourceFile,
            rp_exists = fileExists fs (joinPaths [projectRoot, sourceFile]),
            rp_original = linkTarget, rp_anchor = anchor\<rparr>
         else
           let resolved0 = resolveTarget sourceFile target;
               fullPath = joinPaths [projectRoot, resolved0];
               resolved =
                 (if \<not> endsWith resolved0 ''.md'' \<and> \<not> includesStr resolved0 ''.'' then
                    (let withMdPath = fullPath @ ''.md''
                     in if fileExists fs withMdPath then resolved0 @ ''.md''
                        else
                          let readmePath = joinPaths [fullPath, ''README.md'']
                          in if fileExists fs readmePath then joinPaths [resolved0, ''README.md'']
                             else resolved0)
                  else resolved0)
           in \<lparr>rp_resolved = resolved,
               rp_exists = fileExists fs (joinPaths [projectRoot, resolved]),
               rp_original = linkTarget, rp_anchor = anchor\<rparr>)"

section \<open>Link validation (link-checker/validators/link-validator.ts)\<close>

definition validateLink ::
  "disk \<Rightarrow> string \<Rightarrow> ParsedLink \<Rightarrow> string \<Rightarrow> RedirectMap option \<Rightarrow> ValidationResult" where
  "validateLink fs sourceFile link projectRoot redirectMap =
     (if link_type link = External then
        \<lparr>vr_sourceFile = sourceFile, vr_link = link, vr_status = Valid,
         vr_resolvedPath = Some (link_target link), vr_error = None\<rparr>
      else if link_type link = AnchorOnly then
        \<lparr>vr_sourceFile = sourceFile, vr_link = link, vr_status = Valid,
         vr_resolvedPath = Some sourceFile, vr_error = None\<rparr>
      else
        let resolved = resolveRelativeLink fs sourceFile (link_target link) projectRoot;
            broken = \<lparr>vr_sourceFile = sourceFile, vr_link = link, vr_status = Broken,
                      vr_resolvedPath = Some (rp_resolved resolved),
                      vr_error = Some (''Target not found: '' @ rp_resolved resolved)\<rparr>
        in if rp_exists resolved then
             \<lparr>vr_sourceFile = sourceFile, vr_link = link, vr_status = Valid,
              vr_resolvedPath = Some (rp_resolved resolved), vr_error = None\<rparr>
           else
             (case redirectMap of
                None \<Rightarrow> broken
              | Some m \<Rightarrow>
                  (case findRedirectTarget m (rp_resolved resolved) of
                     None \<Rightarrow> broken
                   | Some redirectTarget \<Rightarrow>
                       if redirectTarget \<noteq> []
                          \<and> fileExists fs (joinPaths [projectRoot, redirectTarget])
                       then
                         \<lparr>vr_sourceFile = sourceFile, vr_link = link,
                          vr_status = RedirectAvailable,
                          vr_resolvedPath = Some (rp_resolved resolved),
                          vr_error = Some (''Target not found: '' @ rp_resolved resolved
                                           @ ''. Redirect available to: '' @ redirectTarget)\<rparr>
                       else broken)))"

section \<open>Library functions used by the fix suggester\<close>

text \<open>
  \<^verbatim>\<open>path.basename\<close> with one argument: the last segment, trailing slashes ignored.
\<close>

definition pathBasename :: "string \<Rightarrow> string" where
  "pathBasename p =
     rev (takeWhile (\<lambda>c. c \<noteq> CHR ''/'') (dropWhile (\<lambda>c. c = CHR ''/'') (rev p)))"

text \<open>
  \<^verbatim>\<open>distance\<close> of the package fastest-levenshtein is the edit distance of two strings. It is
  computed row by row: \<open>levRow c b prev left\<close> is the row for one more character \<open>c\<close> of the
  first string, given the previous row \<open>prev\<close> and the entry \<open>left\<close> to the left.
\<close>

fun levRow :: "char \<Rightarrow> string \<Rightarrow> nat list \<Rightarrow> nat \<Rightarrow> nat list" where
  "levRow c (d # ds) (diag # up # rest) left =
     (let v = min (min (up + 1) (left + 1)) (diag + (if c = d then 0 else 1))
      in v # levRow c ds (up # rest) v)"
| "levRow c _ _ _ = []"

definition levStep :: "string \<Rightarrow> nat list \<Rightarrow> char \<Rightarrow> nat list" where
  "levStep b prev c = (hd prev + 1) # levRow c b prev (hd prev + 1)"

definition levenshtein :: "string \<Rightarrow> string \<Rightarrow> nat" where
  "levenshtein a b = last (foldl (levStep b) [0..<Suc (length b)] a)"

text \<open>A number inside a template string: its decimal digits.\<close>

function showNat :: "nat \<Rightarrow> string" where
  "showNat n =
     (if n < 10 then [char_of (48 + n)] else showNat (n div 10) @ [char_of (48 + n mod 10)])"
  by pat_completeness auto
termination
  by (relation "measure id") auto

section \<open>Fix suggestions (link-checker/fixers/redirect-finder.ts)\<close>

datatype FixConfidence = High | Medium | Low

record FixSuggestion =
  confidence :: FixConfidence
  suggestedPath :: string
  reason :: string
  redirectEntry :: "RedirectEntry option"

text \<open>A \<^verbatim>\<open>BrokenLink\<close> is a \<^verbatim>\<open>ValidationResult\<close> whose status is \<^verbatim>\<open>broken\<close>.\<close>

type_synonym BrokenLink = ValidationResult

text \<open>The four variations of a broken path, in the order of the loop.\<close>

definition variations :: "string \<Rightarrow> string list" where
  "variations brokenPath =
     [brokenPath, stripLeadingSlash brokenPath, stripMdSuffix brokenPath,
      stripMdSuffix (stripLeadingSlash brokenPath)]"

text \<open>The loop over the variations; the first one whose redirect target is a file returns.\<close>

fun tryVariations ::
  "disk \<Rightarrow> string \<Rightarrow> RedirectMap \<Rightarrow> string \<Rightarrow> string list \<Rightarrow> FixSuggestion option" where
  "tryVariations fs brokenPath redirectMap projectRoot [] = None"
| "tryVariations fs brokenPath redirectMap projectRoot (variant # rest) =
     (case findRedirectTarget redirectMap variant of
        None \<Rightarrow> tryVariations fs brokenPath redirectMap projectRoot rest
      | Some redirectTarget \<Rightarrow>
          if redirectTarget \<noteq> [] \<and> fileExists fs (joinPaths [projectRoot, redirectTarget])
          then Some \<lparr>confidence = High, suggestedPath = redirectTarget,
                     reason = ''Redirect exists in .gitbook.yaml'',
                     redirectEntry =
                       List.find (\<lambda>e. re_from e = variant \<or> re_from e = brokenPath)
                         (entries redirectMap)\<rparr>
          else tryVariations fs brokenPath redirectMap projectRoot rest)"

definition findRedirectSuggestion ::
  "disk \<Rightarrow> string \<Rightarrow> RedirectMap \<Rightarrow> string \<Rightarrow> FixSuggestion option" where
  "findRedirectSuggestion fs brokenPath redirectMap projectRoot =
     tryVariations fs brokenPath redirectMap projectRoot (variations brokenPath)"

text \<open>
  The module variable \<^verbatim>\<open>allFilesCache\<close> is threaded through as a \<open>string list option\<close>.
  \<open>getAllFiles\<close> stands for the directory scan of the project for Markdown files; each of the
  strategies 2 to 4 runs it when the cache is empty and stores what it returns.
\<close>

definition loadAllFiles :: "(string \<Rightarrow> string list) \<Rightarrow> string \<Rightarrow> string list option \<Rightarrow> string list" where
  "loadAllFiles getAllFiles projectRoot allFilesCache =
     (case allFilesCache of None \<Rightarrow> getAllFiles projectRoot | Some files \<Rightarrow> files)"

definition calculatePathSimilarity :: "string \<Rightarrow> string \<Rightarrow> rat" where
  "calculatePathSimilarity path1 path2 =
     (let segments1 = filter (\<lambda>s. s \<noteq> []) (splitOn CHR ''/'' path1);
          segments2 = filter (\<lambda>s. s \<noteq> []) (splitOn CHR ''/'' path2);
          totalSegments = max (length segments1) (length segments2);
          commonCount = length (filter (\<lambda>seg. seg \<in> set segments2) segments1)
      in if totalSegments > 0 then of_nat commonCount / of_nat totalSegments else 0)"

text \<open>\<^verbatim>\<open>sort\<close> is stable; a comparator \<^verbatim>\<open>b.score - a.score\<close> sorts by descending score.\<close>

definition findByBasename ::
  "(string \<Rightarrow> string list) \<Rightarrow> string list option \<Rightarrow> string \<Rightarrow> string
   \<Rightarrow> FixSuggestion option \<times> string list option" where
  "findByBasename getAllFiles allFilesCache brokenPath projectRoot =
     (let basename = pathBasename brokenPath;
          files = loadAllFiles getAllFiles projectRoot allFilesCache;
          matches = filter (\<lambda>f. toLowerCase (pathBasename f) = toLowerCase basename) files;
          scored = sort_key (\<lambda>m. - calculatePathSimilarity brokenPath m) matches
      in (if length matches = 1 then
            Some \<lparr>confidence = Medium, suggestedPath = hd matches,
                  reason = ''File with same name found in different location'',
                  redirectEntry = None\<rparr>
          else if length matches > 1 \<and> calculatePathSimilarity brokenPath (hd scored) > 1 / 2 then
            Some \<lparr>confidence = Medium, suggestedPath = hd scored,
                  reason = ''Similar file found ('' @ showNat (length matches)
                           @ '' candidates, best match selected)'',
                  redirectEntry = None\<rparr>
          else None,
          Some files))"

definition findBySimilarity ::
  "(string \<Rightarrow> string list) \<Rightarrow> string list option \<Rightarrow> string \<Rightarrow> string
   \<Rightarrow> FixSuggestion option \<times> string list option" where
  "findBySimilarity getAllFiles allFilesCache brokenPath projectRoot =
     (let files = loadAllFiles getAllFiles projectRoot allFilesCache;
          maxDistance = min 10 ((3 * length brokenPath) div 10);
          candidates =
            filter (\<lambda>filePath. levenshtein (toLowerCase brokenPath) (toLowerCase filePath)
                                \<le> maxDistance) files;
          sorted = sort_key (\<lambda>filePath. levenshtein (toLowerCase brokenPath) (toLowerCase filePath))
                     candidates
      in (if candidates = [] then None
          else
            let best = hd sorted;
                distance = levenshtein (toLowerCase brokenPath) (toLowerCase best)
            in if distance \<le> 5 then
                 Some \<lparr>confidence = (if distance \<le> 2 then Medium else Low),
                       suggestedPath = best,
                       reason = ''Similar path found (edit distance: '' @ showNat distance @ '')'',
                       redirectEntry = None\<rparr>
               else None,
          Some files))"

definition findByCaseVariation ::
  "(string \<Rightarrow> string list) \<Rightarrow> string list option \<Rightarrow> string \<Rightarrow> string
   \<Rightarrow> FixSuggestion option \<times> string list option" where
  "findByCaseVariation getAllFiles allFilesCache brokenPath projectRoot =
     (let files = loadAllFiles getAllFiles projectRoot allFilesCache;
          lowerBroken = toLowerCase brokenPath
      in (case List.find (\<lambda>f. toLowerCase f = lowerBroken) files of
            None \<Rightarrow> None
          | Some match \<Rightarrow>
              if match \<noteq> [] \<and> match \<noteq> brokenPath then
                Some \<lparr>confidence = Low, suggestedPath = match,
                      reason = ''Case variation of path exists'', redirectEntry = None\<rparr>
              else None,
          Some files))"

fun tryNeighbors ::
  "disk \<Rightarrow> string \<Rightarrow> string \<Rightarrow> string \<Rightarrow> (string \<times> string) list \<Rightarrow> FixSuggestion option" where
  "tryNeighbors fs linkTarget sourceDir projectRoot [] = None"
| "tryNeighbors fs linkTarget sourceDir projectRoot ((relative, description) # rest) =
     (let resolvedTarget = normalizePath (pathJoin [sourceDir, relative, ''README.md''])
      in if fileExists fs (joinPaths [projectRoot, resolvedTarget])
            \<and> relative @ ''README.md'' \<noteq> linkTarget
            \<and> relative @ ''README.md'' \<noteq> linkTarget @ ''README.md''
         then Some \<lparr>confidence = Low, suggestedPath = resolvedTarget,
                    reason = ''README.md found in '' @ description, redirectEntry = None\<rparr>
         else tryNeighbors fs linkTarget sourceDir projectRoot rest)"

definition findNeighborReadme :: "disk \<Rightarrow> BrokenLink \<Rightarrow> string \<Rightarrow> FixSuggestion option" where
  "findNeighborReadme fs broken projectRoot =
     (let linkTarget = link_target (vr_link broken);
          isDirectoryLink = (endsWith linkTarget ''/''
                             \<or> (startsWith linkTarget ''.'' \<and> \<not> includesStr linkTarget ''.md''))
      in if \<not> isDirectoryLink then None
         else tryNeighbors fs linkTarget (getDirectory (vr_sourceFile broken)) projectRoot
                [(''./'', ''current directory''), (''../'', ''parent directory''),
                 (''../../'', ''grandparent directory'')])"

text \<open>\<^verbatim>\<open>broken.resolvedPath || broken.link.target\<close>.\<close>

definition brokenResolvedPath :: "BrokenLink \<Rightarrow> string" where
  "brokenResolvedPath broken =
     (case vr_resolvedPath broken of
        None \<Rightarrow> link_target (vr_link broken)
      | Some r \<Rightarrow> if r \<noteq> [] then r else link_target (vr_link broken))"

definition findFixSuggestion ::
  "(string \<Rightarrow> string list) \<Rightarrow> disk \<Rightarrow> string list option \<Rightarrow> BrokenLink \<Rightarrow> string \<Rightarrow> RedirectMap
   \<Rightarrow> FixSuggestion option \<times> string list option" where
  "findFixSuggestion getAllFiles fs allFilesCache broken projectRoot redirectMap =
     (let resolvedPath = brokenResolvedPath broken
      in case findRedirectSuggestion fs resolvedPath redirectMap projectRoot of
           Some redirectSuggestion \<Rightarrow> (Some redirectSuggestion, allFilesCache)
         | None \<Rightarrow>
             (case findByBasename getAllFiles allFilesCache resolvedPath projectRoot of
                (Some basenameSuggestion, cache1) \<Rightarrow> (Some basenameSuggestion, cache1)
              | (None, cache1) \<Rightarrow>
                  (case findBySimilarity getAllFiles cache1 resolvedPath projectRoot of
                     (Some levenshteinSuggestion, cache2) \<Rightarrow> (Some levenshteinSuggestion, cache2)
                   | (None, cache2) \<Rightarrow>
                       (case findByCaseVariation getAllFiles cache2 resolvedPath projectRoot of
                          (Some caseSuggestion, cache3) \<Rightarrow> (Some caseSuggestion, cache3)
                        | (None, cache3) \<Rightarrow> (findNeighborReadme fs broken projectRoot, cache3)))))"

section \<open>Heading extraction (link-checker/parsers/markdown.ts)\<close>

record HeadingInfo =
  h_text :: string
  h_id :: string
  h_level :: nat
  h_line :: nat

record FileHeadings =
  fh_filePath :: string
  fh_headings :: "HeadingInfo list"

text \<open>\<^verbatim>\<open>s.trim()\<close>: the characters removed at both ends are those of \<^verbatim>\<open>\s\<close>.\<close>

definition trim :: "string \<Rightarrow> string" where
  "trim s = rev (dropWhile isSpaceChar (rev (dropWhile isSpaceChar s)))"

text \<open>
  \<open>computeCodeBlockState\<close>: the flag flips on every line that starts, after trimming, with three
  backquotes or three tildes, and the flag after the flip is the state of that line.
\<close>

fun codeBlockStates :: "bool \<Rightarrow> string list \<Rightarrow> bool list" where
  "codeBlockStates inBlock [] = []"
| "codeBlockStates inBlock (l # ls) =
     (let inBlock' = (if startsWith (trim l) ''```'' \<or> startsWith (trim l) ''~~~''
                      then \<not> inBlock else inBlock)
      in inBlock' # codeBlockStates inBlock' ls)"

definition computeCodeBlockState :: "string list \<Rightarrow> bool list" where
  "computeCodeBlockState ls = codeBlockStates False ls"

text \<open>
  \<^verbatim>\<open>/^(#{1,6})\s+(.+)$/\<close> on one line. The hashes must be all the leading hashes, since
  whitespace has to follow them. \<^verbatim>\<open>\s+\<close> is greedy and gives characters back one at a time
  until \<^verbatim>\<open>(.+)$\<close> matches the rest: a non-empty rest without a line terminator. The result
  is the pair of the two groups.
\<close>

definition dotPlusToEnd :: "string \<Rightarrow> bool" where
  "dotPlusToEnd s = (s \<noteq> [] \<and> list_all (\<lambda>c. code c \<noteq> 10 \<and> code c \<noteq> 13) s)"

definition atxHeadingMatch :: "string \<Rightarrow> (string \<times> string) option" where
  "atxHeadingMatch l =
     (let hashes = takeWhile (\<lambda>c. c = CHR ''#'') l;
          rest = drop (length hashes) l;
          w = length (takeWhile isSpaceChar rest)
      in if 1 \<le> length hashes \<and> length hashes \<le> 6 then
           (case List.find (\<lambda>k. dotPlusToEnd (drop k rest)) (rev [1..<Suc w]) of
              None \<Rightarrow> None
            | Some k \<Rightarrow> Some (hashes, drop k rest))
         else None)"

text \<open>
  \<^verbatim>\<open>/\{#([^}]+)\}\s*$/\<close>: at a given position the match is an opening \<^verbatim>\<open>{#\<close>, at least one
  character up to the next closing brace, and only whitespace behind that brace. The leftmost
  position that matches wins; the result is the text before the match and the group.
\<close>

definition customAnchorAt :: "string \<Rightarrow> string option" where
  "customAnchorAt s =
     (if startsWith s ''{#'' then
        (let body = drop 2 s;
             ident = takeWhile (\<lambda>c. c \<noteq> CHR ''}'') body;
             after = drop (length ident) body
         in if ident \<noteq> [] \<and> after \<noteq> [] \<and> list_all isSpaceChar (tl after) then Some ident
            else None)
      else None)"

fun customAnchorMatch :: "string \<Rightarrow> (string \<times> string) option" where
  "customAnchorMatch [] = None"
| "customAnchorMatch (c # cs) =
     (case customAnchorAt (c # cs) of
        Some ident \<Rightarrow> Some ([], ident)
      | None \<Rightarrow> map_option (\<lambda>(pre, ident). (c # pre, ident)) (customAnchorMatch cs))"

definition parseHeadingLine :: "nat \<Rightarrow> string \<Rightarrow> HeadingInfo option" where
  "parseHeadingLine lineNumber l =
     (case atxHeadingMatch l of
        None \<Rightarrow> None
      | Some (hashes, rawText) \<Rightarrow>
          (let text0 = trim rawText
           in case customAnchorMatch text0 of
                Some (pre, ident) \<Rightarrow>
                  Some \<lparr>h_text = trim pre, h_id = ident, h_level = length hashes,
                        h_line = lineNumber\<rparr>
              | None \<Rightarrow>
                  Some \<lparr>h_text = text0, h_id = generateAnchorId text0, h_level = length hashes,
                        h_line = lineNumber\<rparr>))"

fun headingLoop :: "nat \<Rightarrow> string list \<Rightarrow> bool list \<Rightarrow> HeadingInfo list" where
  "headingLoop lineIndex (l # ls) (st # sts) =
     (if st then headingLoop (Suc lineIndex) ls sts
      else (case parseHeadingLine (Suc lineIndex) l of
              None \<Rightarrow> headingLoop (Suc lineIndex) ls sts
            | Some h \<Rightarrow> h # headingLoop (Suc lineIndex) ls sts))"
| "headingLoop lineIndex _ _ = []"

definition parseMarkdownHeadings :: "string \<Rightarrow> string \<Rightarrow> FileHeadings" where
  "parseMarkdownHeadings filePath fileContent =
     (let ls = splitOn CHR 0x0A fileContent
      in \<lparr>fh_filePath = filePath,
          fh_headings = headingLoop 0 ls (computeCodeBlockState ls)\<rparr>)"

section \<open>Anchor validation (link-checker/validators/anchor-validator.ts)\<close>

text \<open>The module variable \<^verbatim>\<open>headingsCache\<close> is threaded through as a map.\<close>

type_synonym headingsCache = "string \<rightharpoonup> FileHeadings"

definition getFileHeadings ::
  "disk \<Rightarrow> headingsCache \<Rightarrow> string \<Rightarrow> string \<Rightarrow> FileHeadings option \<times> headingsCache" where
  "getFileHeadings fs cache filePath projectRoot =
     (let fullPath = joinPaths [projectRoot, filePath]
      in case fs fullPath of
           None \<Rightarrow> (None, cache)
         | Some content \<Rightarrow>
             (case cache filePath of
                Some headings \<Rightarrow> (Some headings, cache)
              | None \<Rightarrow>
                  (let headings = parseMarkdownHeadings filePath content
                   in (Some headings, cache(filePath \<mapsto> headings)))))"

text \<open>
  The similarity score is a quotient of two small integers. It is a rational number here; the
  comparisons of the source, done on doubles, agree with it for strings of any realistic length.
\<close>

definition calculateSimilarity :: "string \<Rightarrow> string \<Rightarrow> rat" where
  "calculateSimilarity a b =
     (let aLower = toLowerCase a;
          bLower = toLowerCase b;
          maxLen = max (length aLower) (length bLower)
      in if maxLen = 0 then 1 else 1 - of_nat (levenshtein aLower bLower) / of_nat maxLen)"

definition findSimilarAnchors :: "string \<Rightarrow> HeadingInfo list \<Rightarrow> string list" where
  "findSimilarAnchors targetAnchor headings =
     (let suggestions = filter (\<lambda>h. calculateSimilarity targetAnchor (h_id h) > 1 / 2) headings
      in map h_id
           (take 3 (sort_key (\<lambda>h. - calculateSimilarity targetAnchor (h_id h)) suggestions)))"

record AnchorValidation =
  av_valid :: bool
  av_error :: "string option"
  av_suggestions :: "string list option"

definition validateAnchor ::
  "disk \<Rightarrow> headingsCache \<Rightarrow> string \<Rightarrow> string \<Rightarrow> string \<Rightarrow> AnchorValidation \<times> headingsCache" where
  "validateAnchor fs cache targetFile anchor projectRoot =
     (case getFileHeadings fs cache targetFile projectRoot of
        (None, cache') \<Rightarrow>
          (\<lparr>av_valid = False, av_error = Some (''Target file not found: '' @ targetFile),
            av_suggestions = None\<rparr>, cache')
      | (Some headings, cache') \<Rightarrow>
          (let normalizedAnchor = toLowerCase anchor
           in if List.find (\<lambda>h. h_id h = normalizedAnchor) (fh_headings headings) \<noteq> None then
                (\<lparr>av_valid = True, av_error = None, av_suggestions = None\<rparr>, cache')
              else if List.find (\<lambda>h. toLowerCase (h_id h) = normalizedAnchor) (fh_headings headings)
                      \<noteq> None then
                (\<lparr>av_valid = True, av_error = None, av_suggestions = None\<rparr>, cache')
              else
                let suggestions = findSimilarAnchors normalizedAnchor (fh_headings headings)
                in (\<lparr>av_valid = False,
                     av_error = Some (''Anchor not found: #'' @ anchor @ '' in '' @ targetFile),
                     av_suggestions = (if length suggestions > 0 then Some suggestions else None)\<rparr>,
                    cache')))"

text \<open>
  The similarity score in the words of the specification: one minus the edit distance of the
  two strings, compared without regard to case, divided by the length of the longer one.
\<close>

definition specScore :: "string \<Rightarrow> string \<Rightarrow> rat" where
  "specScore anchor ident =
     1 - of_nat (levenshtein (toLowerCase anchor) (toLowerCase ident))
         / of_nat (max (length anchor) (length ident))"

section \<open>Navigation tree (link-checker/parsers/summary.ts)\<close>

text \<open>
  The entries are objects that the parser mutates through references: an entry on the parent
  stack gets children pushed while it is also reachable from the result. The model keeps the
  objects in a heap, addressed by the order of their creation; a child list and the parent
  stack hold addresses.
\<close>

record SummaryEntry =
  se_title :: string
  se_path :: string
  se_line :: nat
  se_depth :: nat
  se_children :: "nat list"

record SummaryState =
  st_heap :: "nat \<Rightarrow> SummaryEntry"
  st_count :: nat
  st_entries :: "nat list"
  st_allPaths :: "string list"
  st_parentStack :: "nat list"

definition initialSummaryState :: SummaryState where
  "initialSummaryState =
     \<lparr>st_heap = (\<lambda>a. \<lparr>se_title = [], se_path = [], se_line = 0, se_depth = 0, se_children = []\<rparr>),
      st_count = 0, st_entries = [], st_allPaths = [], st_parentStack = []\<rparr>"

text \<open>
  \<^verbatim>\<open>/^(\s*)[\*\-]\s+\[([^\]]+)\]\(([^)]+)\)/\<close>: the indentation is all the leading whitespace,
  since the bullet that has to follow is not whitespace; likewise each of the other groups ends
  at the first character that it cannot contain. The result is the triple of the groups.
\<close>

definition entryMatch :: "string \<Rightarrow> (string \<times> string \<times> string) option" where
  "entryMatch l =
     (let indent = takeWhile isSpaceChar l;
          r1 = drop (length indent) l
      in case r1 of
           [] \<Rightarrow> None
         | bullet # r2 \<Rightarrow>
             (let ws = takeWhile isSpaceChar r2;
                  r3 = drop (length ws) r2;
                  title = takeWhile (\<lambda>c. c \<noteq> CHR '']'') (drop 1 r3);
                  r4 = drop (length title) (drop 1 r3);
                  rawPath = takeWhile (\<lambda>c. c \<noteq> CHR '')'') (drop 2 r4);
                  r5 = drop (length rawPath) (drop 2 r4)
              in if (bullet = CHR ''*'' \<or> bullet = CHR ''-'') \<and> ws \<noteq> [] \<and> startsWith r3 ''[''
                    \<and> title \<noteq> [] \<and> startsWith r4 ''](''  \<and> rawPath \<noteq> [] \<and> startsWith r5 '')''
                 then Some (indent, title, rawPath) else None))"

text \<open>
  The body of the loop for one list item. The parent stack has its top at the head of the list;
  the \<^verbatim>\<open>while\<close> loop that pops every entry at least as deep as the new one is \<open>dropWhile\<close>.
\<close>

definition addEntry :: "SummaryState \<Rightarrow> string \<Rightarrow> string \<Rightarrow> nat \<Rightarrow> nat \<Rightarrow> SummaryState" where
  "addEntry st title path lineNumber depth =
     (let entry = st_count st;
          heap1 = (st_heap st)
                    (entry := \<lparr>se_title = title, se_path = path, se_line = lineNumber,
                               se_depth = depth, se_children = []\<rparr>);
          allPaths = st_allPaths st @ [path]
      in if depth = 0 then
           \<lparr>st_heap = heap1, st_count = Suc entry, st_entries = st_entries st @ [entry],
            st_allPaths = allPaths, st_parentStack = [entry]\<rparr>
         else
           (let stack = dropWhile (\<lambda>a. se_depth (heap1 a) \<ge> depth) (st_parentStack st)
            in case stack of
                 [] \<Rightarrow>
                   \<lparr>st_heap = heap1, st_count = Suc entry, st_entries = st_entries st @ [entry],
                    st_allPaths = allPaths, st_parentStack = [entry]\<rparr>
               | parent # others \<Rightarrow>
                   \<lparr>st_heap = heap1
                      (parent := (heap1 parent)
                         \<lparr>se_children := se_children (heap1 parent) @ [entry]\<rparr>),
                    st_count = Suc entry, st_entries = st_entries st,
                    st_allPaths = allPaths, st_parentStack = entry # stack\<rparr>))"

fun summaryLoop :: "decoder \<Rightarrow> nat \<Rightarrow> string list \<Rightarrow> SummaryState \<Rightarrow> js_error + SummaryState" where
  "summaryLoop dec lineIndex [] st = Inr st"
| "summaryLoop dec lineIndex (l # ls) st =
     (case entryMatch l of
        None \<Rightarrow> summaryLoop dec (Suc lineIndex) ls st
      | Some (indent, title, rawPath) \<Rightarrow>
          (case cleanLinkPath dec (trim rawPath) of
             Inl e \<Rightarrow> Inl e
           | Inr path \<Rightarrow>
               summaryLoop dec (Suc lineIndex) ls
                 (addEntry st (trim title) path (Suc lineIndex) (length indent div 2))))"

definition parseSummary :: "disk \<Rightarrow> decoder \<Rightarrow> string \<Rightarrow> js_error + SummaryState" where
  "parseSummary fs dec summaryPath =
     (case readFile fs summaryPath of
        Inl e \<Rightarrow> Inl e
      | Inr content \<Rightarrow> summaryLoop dec 0 (splitOn CHR 0x0A content) initialSummaryState)"

text \<open>
  The nearest entry before entry \<open>j\<close> that is strictly less deep, for a depth function \<open>d\<close>:
  the search goes backwards from \<open>j\<close>.
\<close>

definition nearestShallower :: "(nat \<Rightarrow> nat) \<Rightarrow> nat \<Rightarrow> nat option" where
  "nearestShallower d j = List.find (\<lambda>i. d i < d j) (rev [0..<j])"

text \<open>
  The parent stack is well formed for a depth function \<open>d\<close> when each entry on it is followed
  by its nearest shallower predecessor, and the bottom entry has none.
\<close>

fun stackOk :: "(nat \<Rightarrow> nat) \<Rightarrow> nat list \<Rightarrow> bool" where
  "stackOk d [] = True"
| "stackOk d [a] = (nearestShallower d a = None)"
| "stackOk d (a # b # r) = (nearestShallower d a = Some b \<and> stackOk d (b # r))"

definition depthOf :: "SummaryState \<Rightarrow> nat \<Rightarrow> nat" where
  "depthOf st i = se_depth (st_heap st i)"

definition summaryInv :: "SummaryState \<Rightarrow> bool" where
  "summaryInv st =
     ((st_count st = 0 \<and> st_parentStack st = []
        \<or> st_count st > 0 \<and> st_parentStack st \<noteq> [] \<and> hd (st_parentStack st) = st_count st - 1)
      \<and> list_all (\<lambda>a. a < st_count st) (st_parentStack st)
      \<and> stackOk (depthOf st) (st_parentStack st)
      \<and> (\<forall>i j. (j \<in> set (se_children (st_heap st i)))
                 = (j < st_count st \<and> nearestShallower (depthOf st) j = Some i))
      \<and> (\<forall>j. (j \<in> set (st_entries st))
               = (j < st_count st \<and> nearestShallower (depthOf st) j = None)))"

text \<open>The list items of a text: line number and depth of every line that matches.\<close>

fun listItems :: "nat \<Rightarrow> string list \<Rightarrow> (nat \<times> nat) list" where
  "listItems lineIndex [] = []"
| "listItems lineIndex (l # ls) =
     (case entryMatch l of
        None \<Rightarrow> listItems (Suc lineIndex) ls
      | Some (indent, title, rawPath) \<Rightarrow>
          (Suc lineIndex, length indent div 2) # listItems (Suc lineIndex) ls)"

definition heapItems :: "SummaryState \<Rightarrow> (nat \<times> nat) list" where
  "heapItems st = map (\<lambda>i. (se_line (st_heap st i), se_depth (st_heap st i))) [0..<st_count st]"

section \<open>Relative paths (node:path, shared/path-utils.ts)\<close>

text \<open>
  \<^verbatim>\<open>path.resolve\<close> of one path and \<^verbatim>\<open>path.relative\<close>, POSIX flavour. The working directory
  \<open>cwd\<close> of the process is an absolute path and a parameter. Both arguments of
  \<^verbatim>\<open>path.relative\<close> are made absolute; the result climbs out of what is left of the first one
  behind the common leading segments and descends into what is left of the second.
\<close>

definition pathResolve :: "string \<Rightarrow> string \<Rightarrow> string" where
  "pathResolve cwd p =
     ''/'' @ normalizeString (if startsWith p ''/'' then p else cwd @ ''/'' @ p) False"

fun dropCommon :: "string list \<Rightarrow> string list \<Rightarrow> string list \<times> string list" where
  "dropCommon (a # as) (b # bs) = (if a = b then dropCommon as bs else (a # as, b # bs))"
| "dropCommon as bs = (as, bs)"

definition pathRelative :: "string \<Rightarrow> string \<Rightarrow> string \<Rightarrow> string" where
  "pathRelative cwd fromPath toPath =
     (if fromPath = toPath then []
      else
        let fromSegs = filter (\<lambda>s. s \<noteq> []) (splitOn CHR ''/'' (pathResolve cwd fromPath));
            toSegs = filter (\<lambda>s. s \<noteq> []) (splitOn CHR ''/'' (pathResolve cwd toPath));
            (fromRest, toRest) = dropCommon fromSegs toSegs
        in joinWith ''/'' (replicate (length fromRest) ''..'' @ toRest))"

definition toRelativeLink :: "string \<Rightarrow> string \<Rightarrow> string \<Rightarrow> string" where
  "toRelativeLink cwd sourceFile targetPath =
     (let sourceDir = pathDirname sourceFile;
          relative = backslashesToSlashes (pathRelative cwd sourceDir targetPath)
      in if \<not> startsWith relative ''.'' \<and> \<not> startsWith relative ''/'' then ''./'' @ relative
         else relative)"

section \<open>Link rewriting (link-checker/fixers/link-fixer.ts)\<close>

record FixResult =
  fr_sourceFile :: string
  fr_originalLink :: ParsedLink
  fr_newPath :: string
  fr_success :: bool
  fr_error :: "string option"
  fr_redirectAdded :: bool

type_synonym linkFix = "BrokenLink \<times> FixSuggestion"

text \<open>
  \<open>buildLinkReplacementPattern\<close> escapes every regular-expression metacharacter of the target
  and of the anchor, so the pattern is the literal text \<^verbatim>\<open>](\<close>, an optional \<^verbatim>\<open><\<close>, the target,
  the anchor part, an optional \<^verbatim>\<open>>\<close> and \<^verbatim>\<open>)\<close>. \<open>linkTextMatch\<close> gives the length of the match
  of this pattern at the start of a string. Both optional characters are greedy: the match
  with the character is tried first.
\<close>

definition anchorPart :: "ParsedLink \<Rightarrow> string" where
  "anchorPart link =
     (case link_anchor link of None \<Rightarrow> [] | Some a \<Rightarrow> if a = [] then [] else ''#'' @ a)"

definition closingMatch :: "string \<Rightarrow> nat option" where
  "closingMatch r =
     (if startsWith r ''>)'' then Some 2 else if startsWith r '')'' then Some 1 else None)"

definition bodyMatch :: "ParsedLink \<Rightarrow> string \<Rightarrow> nat option" where
  "bodyMatch link r =
     (let body = link_target link @ anchorPart link
      in if startsWith r body
         then map_option (\<lambda>k. length body + k) (closingMatch (drop (length body) r))
         else None)"

definition linkTextMatch :: "ParsedLink \<Rightarrow> string \<Rightarrow> nat option" where
  "linkTextMatch link s =
     (if startsWith s ''](''  then
        (let r = drop 2 s
         in case (if startsWith r ''<'' then bodyMatch link (drop 1 r) else None) of
              Some k \<Rightarrow> Some (3 + k)
            | None \<Rightarrow> map_option (\<lambda>k. 2 + k) (bodyMatch link r))
      else None)"

text \<open>
  The replacement string of \<^verbatim>\<open>String.prototype.replace\<close> is a template: \<^verbatim>\<open>$$\<close> stands for a
  dollar sign, \<^verbatim>\<open>$&\<close> for the matched text, a dollar sign with a backquote for the text before
  the match and a dollar sign with a quote for the text behind it. The pattern has no groups,
  so every other dollar sign stands for itself.
\<close>

fun expandReplacement :: "string \<Rightarrow> string \<Rightarrow> string \<Rightarrow> string \<Rightarrow> string" where
  "expandReplacement (c # d # r) matched leftText rightText =
     (if c = CHR ''$'' \<and> d = CHR ''$'' then CHR ''$'' # expandReplacement r matched leftText rightText
      else if c = CHR ''$'' \<and> d = CHR ''&'' then matched @ expandReplacement r matched leftText rightText
      else if c = CHR ''$'' \<and> d = CHR 0x60 then leftText @ expandReplacement r matched leftText rightText
      else if c = CHR ''$'' \<and> d = CHR 0x27 then rightText @ expandReplacement r matched leftText rightText
      else c # expandReplacement (d # r) matched leftText rightText)"
| "expandReplacement r matched leftText rightText = r"

text \<open>
  The global replacement scans the line from the left; \<open>seen\<close> is the text already passed. A
  match is at least two characters long, so the scan continues \<open>k - 1\<close> characters behind the
  one that follows the first character of the match.
\<close>

fun replaceLinks :: "ParsedLink \<Rightarrow> string \<Rightarrow> string \<Rightarrow> string \<Rightarrow> string" where
  "replaceLinks link template seen [] = []"
| "replaceLinks link template seen (c # cs) =
     (case linkTextMatch link (c # cs) of
        Some k \<Rightarrow>
          expandReplacement template (take k (c # cs)) seen (drop (k - 1) cs)
          @ replaceLinks link template (seen @ take k (c # cs)) (drop (k - 1) cs)
      | None \<Rightarrow> c # replaceLinks link template (seen @ [c]) cs)"

definition replaceLink :: "string \<Rightarrow> ParsedLink \<Rightarrow> string \<Rightarrow> string option" where
  "replaceLink l link newTarget =
     (let newLine = replaceLinks link (''](''  @ newTarget @ '')'') [] l
      in if newLine \<noteq> l then Some newLine else None)"

definition showInt :: "int \<Rightarrow> string" where
  "showInt i = (if i < 0 then ''-'' @ showNat (nat (- i)) else showNat (nat i))"

definition newTargetOf :: "string \<Rightarrow> linkFix \<Rightarrow> string" where
  "newTargetOf cwd f =
     (let broken = fst f;
          newRelativePath = toRelativeLink cwd (vr_sourceFile broken) (suggestedPath (snd f))
      in case link_anchor (vr_link broken) of
           None \<Rightarrow> newRelativePath
         | Some a \<Rightarrow> if a = [] then newRelativePath else newRelativePath @ ''#'' @ a)"

definition failedFix :: "linkFix \<Rightarrow> string \<Rightarrow> FixResult" where
  "failedFix f msg =
     \<lparr>fr_sourceFile = vr_sourceFile (fst f), fr_originalLink = vr_link (fst f),
      fr_newPath = suggestedPath (snd f), fr_success = False, fr_error = Some msg,
      fr_redirectAdded = False\<rparr>"

definition succeededFix :: "linkFix \<Rightarrow> FixResult" where
  "succeededFix f =
     \<lparr>fr_sourceFile = vr_sourceFile (fst f), fr_originalLink = vr_link (fst f),
      fr_newPath = suggestedPath (snd f), fr_success = True, fr_error = None,
      fr_redirectAdded = False\<rparr>"

text \<open>The body of the inner loop of \<open>applyFixes\<close>: one fix on the lines of its file.\<close>

definition fixStep :: "string \<Rightarrow> string list \<Rightarrow> linkFix \<Rightarrow> string list \<times> FixResult" where
  "fixStep cwd ls f =
     (let lineIndex = link_line (vr_link (fst f)) - 1
      in if lineIndex < 0 \<or> lineIndex \<ge> int (length ls) then
           (ls, failedFix f (''Line '' @ showInt (link_line (vr_link (fst f)))
                              @ '' not found in file''))
         else
           (case replaceLink (ls ! nat lineIndex) (vr_link (fst f)) (newTargetOf cwd f) of
              None \<Rightarrow> (ls, failedFix f ''Could not find link to replace'')
            | Some updatedLine \<Rightarrow>
                if updatedLine = [] then (ls, failedFix f ''Could not find link to replace'')
                else (ls[nat lineIndex := updatedLine], succeededFix f)))"

fun fixLoop :: "string \<Rightarrow> linkFix list \<Rightarrow> string list \<Rightarrow> FixResult list \<Rightarrow> string list \<times> FixResult list" where
  "fixLoop cwd [] ls results = (ls, results)"
| "fixLoop cwd (f # fs) ls results =
     (case fixStep cwd ls f of (ls', r) \<Rightarrow> fixLoop cwd fs ls' (results @ [r]))"

text \<open>
  \<^verbatim>\<open>fixesByFile\<close> is a \<^verbatim>\<open>Map\<close>: its keys keep the order of their first insertion, and every
  key holds its fixes in the order of the input.
\<close>

fun addToGroup :: "(string \<times> linkFix list) list \<Rightarrow> linkFix \<Rightarrow> (string \<times> linkFix list) list" where
  "addToGroup [] f = [(vr_sourceFile (fst f), [f])]"
| "addToGroup ((k, fs) # rest) f =
     (if k = vr_sourceFile (fst f) then (k, fs @ [f]) # rest else (k, fs) # addToGroup rest f)"

definition groupByFile :: "linkFix list \<Rightarrow> (string \<times> linkFix list) list" where
  "groupByFile fixes = foldl addToGroup [] fixes"

text \<open>
  The disk comes with the log of the \<open>writeFile\<close> calls, in their order. The outer loop of
  \<open>applyFixes\<close> is not guarded: when a file cannot be read, the exception leaves the function,
  and the files written before stay written.
\<close>

type_synonym world = "disk \<times> (string \<times> string) list"

fun fileLoop ::
  "string \<Rightarrow> string \<Rightarrow> (string \<times> linkFix list) list \<Rightarrow> world \<Rightarrow> FixResult list
   \<Rightarrow> (js_error + FixResult list) \<times> world" where
  "fileLoop cwd projectRoot [] w results = (Inr results, w)"
| "fileLoop cwd projectRoot ((sourceFile, fileFixes) # rest) w results =
     (let sorted = sort_key (\<lambda>f. - link_line (vr_link (fst f))) fileFixes;
          filePath = joinPaths [projectRoot, sourceFile]
      in case readFile (fst w) filePath of
           Inl e \<Rightarrow> (Inl e, w)
         | Inr content \<Rightarrow>
             (case fixLoop cwd sorted (splitOn CHR 0x0A content) results of
                (ls', results') \<Rightarrow>
                  fileLoop cwd projectRoot rest
                    (writeFile (fst w) filePath (joinWith [CHR 0x0A] ls'),
                     snd w @ [(filePath, joinWith [CHR 0x0A] ls')])
                    results'))"

definition applyFixes ::
  "string \<Rightarrow> world \<Rightarrow> linkFix list \<Rightarrow> string \<Rightarrow> (js_error + FixResult list) \<times> world" where
  "applyFixes cwd w fixes projectRoot = fileLoop cwd projectRoot (groupByFile fixes) w []"

text \<open>
  The first occurrence of a link on a line: the text before the match, the matched text and
  the text behind it.
\<close>

fun findLink :: "ParsedLink \<Rightarrow> string \<Rightarrow> (string \<times> string \<times> string) option" where
  "findLink link [] = None"
| "findLink link (c # cs) =
     (case linkTextMatch link (c # cs) of
        Some k \<Rightarrow> Some ([], take k (c # cs), drop k (c # cs))
      | None \<Rightarrow> map_option (\<lambda>(p, m, q). (c # p, m, q)) (findLink link cs))"

section \<open>Redirect generation (link-fixer.ts) and redirect append (shared/gitbook-yaml.ts)\<close>

fun generateLoop :: "FixResult list \<Rightarrow> (string \<times> string) list \<Rightarrow> (string \<times> string) list" where
  "generateLoop [] redirects = redirects"
| "generateLoop (result # rest) redirects =
     (if fr_success result then
        (let fromPath = stripMdSuffix (stripLeadingDotSlash (link_target (fr_originalLink result)));
             toPath = fr_newPath result
         in if includesStr fromPath ''..'' then generateLoop rest redirects
            else if (fromPath, toPath) \<in> set redirects then generateLoop rest redirects
            else generateLoop rest (redirects @ [(fromPath, toPath)]))
      else generateLoop rest redirects)"

definition generateRedirectEntries :: "FixResult list \<Rightarrow> (string \<times> string) list" where
  "generateRedirectEntries fixResults = generateLoop fixResults []"

text \<open>\<^verbatim>\<open>/^\s{2}\S/\<close> and \<^verbatim>\<open>/^\S/\<close> on a line.\<close>

definition isEntryLine :: "string \<Rightarrow> bool" where
  "isEntryLine l =
     (case l of a # b # c # r \<Rightarrow> isSpaceChar a \<and> isSpaceChar b \<and> \<not> isSpaceChar c | _ \<Rightarrow> False)"

definition startsNonSpace :: "string \<Rightarrow> bool" where
  "startsNonSpace l = (case l of a # r \<Rightarrow> \<not> isSpaceChar a | [] \<Rightarrow> False)"

text \<open>
  The scan of \<open>addRedirects\<close> for the index of the \<^verbatim>\<open>redirects:\<close> line and of the last entry
  line behind it; \<open>None\<close> is the index \<^verbatim>\<open>-1\<close> of the source. The scan stops at the first line
  behind the marker that starts with a non-blank character.
\<close>

fun scanRedirects :: "nat \<Rightarrow> string list \<Rightarrow> nat option \<Rightarrow> nat option \<Rightarrow> nat option \<times> nat option" where
  "scanRedirects i [] redirectsLineIndex lastRedirectIndex = (redirectsLineIndex, lastRedirectIndex)"
| "scanRedirects i (l # ls) redirectsLineIndex lastRedirectIndex =
     (let rli = (if trim l = ''redirects:'' then Some i else redirectsLineIndex)
      in case rli of
           None \<Rightarrow> scanRedirects (Suc i) ls rli lastRedirectIndex
         | Some r \<Rightarrow>
             if i > r then
               (if isEntryLine l then scanRedirects (Suc i) ls rli (Some i)
                else if startsNonSpace l \<and> trim l \<noteq> [] then (rli, lastRedirectIndex)
                else scanRedirects (Suc i) ls rli lastRedirectIndex)
             else scanRedirects (Suc i) ls rli lastRedirectIndex)"

definition addRedirects :: "world \<Rightarrow> string \<Rightarrow> (string \<times> string) list \<Rightarrow> (js_error + unit) \<times> world" where
  "addRedirects w yamlPath redirects =
     (if redirects = [] then (Inr (), w)
      else
        case readFile (fst w) yamlPath of
          Inl e \<Rightarrow> (Inl e, w)
        | Inr content \<Rightarrow>
            (let ls = splitOn CHR 0x0A content;
                 newRedirectLines = map (\<lambda>(f, t). ''  '' @ f @ '': '' @ t) redirects;
                 ls' = (case scanRedirects 0 ls None None of
                          (None, lastIdx) \<Rightarrow> ls @ [[], ''redirects:''] @ newRedirectLines
                        | (Some r, Some lastIdx) \<Rightarrow>
                            take (Suc lastIdx) ls @ newRedirectLines @ drop (Suc lastIdx) ls
                        | (Some r, None) \<Rightarrow> take (Suc r) ls @ newRedirectLines @ drop (Suc r) ls)
             in (Inr (),
                 (writeFile (fst w) yamlPath (joinWith [CHR 0x0A] ls'),
                  snd w @ [(yamlPath, joinWith [CHR 0x0A] ls')]))))"

definition applyRedirects :: "world \<Rightarrow> string \<Rightarrow> (string \<times> string) list \<Rightarrow> (js_error + unit) \<times> world" where
  "applyRedirects w gitbookYamlPath redirects =
     (if redirects = [] then (Inr (), w) else addRedirects w gitbookYamlPath redirects)"

definition applyFixesWithRedirects ::
  "string \<Rightarrow> world \<Rightarrow> linkFix list \<Rightarrow> string \<Rightarrow> string \<Rightarrow> bool
   \<Rightarrow> (js_error + FixResult list \<times> nat) \<times> world" where
  "applyFixesWithRedirects cwd w fixes projectRoot gitbookYamlPath addRedirectsFlag =
     (case applyFixes cwd w fixes projectRoot of
        (Inl e, w1) \<Rightarrow> (Inl e, w1)
      | (Inr fixResults, w1) \<Rightarrow>
          if addRedirectsFlag then
            (let redirects = generateRedirectEntries fixResults
             in if length redirects > 0 then
                  (case applyRedirects w1 gitbookYamlPath redirects of
                     (Inl e, w2) \<Rightarrow> (Inl e, w2)
                   | (Inr u, w2) \<Rightarrow>
                       (Inr (map (\<lambda>result. if fr_success result
                                            then result\<lparr>fr_redirectAdded := True\<rparr> else result)
                               fixResults,
                             length redirects), w2))
                else (Inr (fixResults, 0), w1))
          else (Inr (fixResults, 0), w1))"

text \<open>
  For a fix: the index of its line, whether that line exists, and what the inner loop of
  \<open>applyFixes\<close> makes of the line.
\<close>

definition lineIndexOf :: "linkFix \<Rightarrow> nat" where
  "lineIndexOf f = nat (link_line (vr_link (fst f)) - 1)"

definition inRange :: "linkFix \<Rightarrow> string list \<Rightarrow> bool" where
  "inRange f ls = (1 \<le> link_line (vr_link (fst f)) \<and> link_line (vr_link (fst f)) \<le> int (length ls))"

definition lineFix :: "string \<Rightarrow> linkFix \<Rightarrow> string \<Rightarrow> string" where
  "lineFix cwd f l =
     (case replaceLink l (vr_link (fst f)) (newTargetOf cwd f) of
        None \<Rightarrow> l
      | Some updatedLine \<Rightarrow> if updatedLine = [] then l else updatedLine)"

chapter \<open>Properties\<close>

section \<open>Redirect lookup\<close>

text \<open>
  Claim C7. For every redirect table and query path, \<open>findRedirectTarget\<close> tries exactly four
  keys in order: the path as given, the path without a leading slash, the path without a
  \<^verbatim>\<open>.md\<close> suffix, and the path with both normalisations applied. It returns the destination
  stored in the from-to index under the first of these keys that is present, and nothing when
  none of them is present.
\<close>

theorem findRedirectTarget_first_hit:
  "findRedirectTarget redirectMap fromPath =
     (case List.find (\<lambda>k. fromToMap redirectMap k \<noteq> None) (lookupKeys fromPath) of
        None \<Rightarrow> None
      | Some k \<Rightarrow> fromToMap redirectMap k)"
  by (simp add: findRedirectTarget_def lookupKeys_def Let_def)

theorem findRedirectTarget_first_hit_witness:
  "lookupKeys ''/docs/old.md'' = [''/docs/old.md'', ''docs/old.md'', ''/docs/old'', ''docs/old'']
   \<and> findRedirectTarget
        \<lparr>entries = [], fromToMap = [''docs/old'' \<mapsto> ''docs/new.md'', ''/docs/old'' \<mapsto> ''x.md''],
         toFromMap = Map.empty\<rparr> ''/docs/old.md'' = Some ''x.md''"
  using findRedirectTarget_first_hit
    [of "\<lparr>entries = [], fromToMap = [''docs/old'' \<mapsto> ''docs/new.md'', ''/docs/old'' \<mapsto> ''x.md''],
         toFromMap = Map.empty\<rparr>" "''/docs/old.md''"]
  by (simp add: lookupKeys_def stripMdSuffix_def endsWith_def)

section \<open>Anchor ids are fixed points of the slug generator\<close>

lemma lower_not_upper: "\<not> (65 \<le> code (toLowerCaseChar c) \<and> code (toLowerCaseChar c) \<le> 90)"
  by (auto simp: toLowerCaseChar_def code_def)

lemma slugChar_lower: "slugChar c \<Longrightarrow> toLowerCaseChar c = c"
  by (auto simp: slugChar_def toLowerCaseChar_def code_def)

lemma slugChar_not_space: "slugChar c \<Longrightarrow> \<not> isSpaceChar c"
  by (auto simp: slugChar_def isSpaceChar_def code_def)

lemma slugChar_keep: "slugChar c \<Longrightarrow> isWordChar c \<or> isSpaceChar c \<or> c = CHR ''-''"
  by (auto simp: slugChar_def isWordChar_def)

lemma replaceRuns_none: "\<forall>c\<in>set s. \<not> P c \<Longrightarrow> replaceRuns P r s = s"
  by (induction s) auto

lemma replaceRuns_set: "set (replaceRuns P r s) \<subseteq> set r \<union> {c \<in> set s. \<not> P c}"
proof (induction P r s rule: replaceRuns.induct)
  case (1 P r)
  then show ?case by simp
next
  case (2 P r c cs)
  show ?case
  proof (cases "P c")
    case True
    have "set (dropWhile P cs) \<subseteq> set cs" by (rule set_dropWhileD[THEN subsetI]) 
    with 2 True show ?thesis by auto
  next
    case False
    with 2 show ?thesis by auto
  qed
qed


lemma noHyphenPair_Cons: "noHyphenPair (a # s) = ((a = CHR ''-'' \<longrightarrow> s = [] \<or> hd s \<noteq> CHR ''-'') \<and> noHyphenPair s)"
  by (cases s) auto

lemma replaceRuns_hd: "s = [] \<or> \<not> P (hd s) \<Longrightarrow> replaceRuns P r s = [] \<or> hd (replaceRuns P r s) = hd s"
  by (cases s) auto

lemma dropWhile_hd: "dropWhile P cs = [] \<or> \<not> P (hd (dropWhile P cs))"
  by (metis hd_dropWhile)

lemma noHyphenPair_collapse: "noHyphenPair (replaceRuns isHyphen ''-'' s)"
proof (induction "isHyphen" "''-''" s rule: replaceRuns.induct)
  case 1
  show ?case by simp
next
  case (2 c cs)
  show ?case
  proof (cases "isHyphen c")
    case True
    define d where "d = dropWhile isHyphen cs"
    have ih: "noHyphenPair (replaceRuns isHyphen ''-'' d)"
      using 2 True by (simp add: d_def)
    have hd: "d = [] \<or> \<not> isHyphen (hd d)"
      unfolding d_def by (rule dropWhile_hd)
    have "noHyphenPair (CHR ''-'' # replaceRuns isHyphen ''-'' d)"
    proof (cases d)
      case Nil
      then show ?thesis by simp
    next
      case (Cons e es)
      with hd have "\<not> isHyphen e" by simp
      with ih Cons show ?thesis by (simp add: isHyphen_def)
    qed
    with True show ?thesis by (simp add: d_def)
  next
    case False
    with 2 show ?thesis by (auto simp: noHyphenPair_Cons isHyphen_def)
  qed
qed

lemma collapse_id: "noHyphenPair s \<Longrightarrow> replaceRuns isHyphen ''-'' s = s"
proof (induction s)
  case Nil
  show ?case by simp
next
  case (Cons a s)
  then show ?case
    by (cases s) (auto simp: isHyphen_def)
qed

lemma noHyphenPair_tl: "noHyphenPair s \<Longrightarrow> noHyphenPair (tl s)"
  by (cases s) (auto simp: noHyphenPair_Cons)

lemma noHyphenPair_butlast: "noHyphenPair s \<Longrightarrow> noHyphenPair (butlast s)"
proof (induction s rule: noHyphenPair.induct)
  case (1 a b r)
  then show ?case by (cases r) auto
qed auto

lemma noHyphenPair_last2: "noHyphenPair s \<Longrightarrow> s \<noteq> [] \<Longrightarrow> last s = CHR ''-'' \<Longrightarrow> butlast s = [] \<or> last (butlast s) \<noteq> CHR ''-''"
proof (induction s rule: noHyphenPair.induct)
  case (1 a b r)
  then show ?case by (cases r) (auto split: if_splits)
qed auto

lemma hd_butlast: "butlast s \<noteq> [] \<Longrightarrow> hd (butlast s) = hd s"
  by (cases s) auto

lemma trimHyphens_slug:
  assumes "list_all slugChar s" "noHyphenPair s"
  shows "isSlug (trimHyphens s)"
proof -
  define s1 where "s1 = (if s \<noteq> [] \<and> hd s = CHR ''-'' then tl s else s)"
  have a1: "list_all slugChar s1" using assms(1) by (cases s) (auto simp: s1_def)
  have n1: "noHyphenPair s1" using assms(2) by (auto simp: s1_def noHyphenPair_tl)
  have h1: "s1 = [] \<or> hd s1 \<noteq> CHR ''-''"
    using assms(2) by (cases s) (auto simp: s1_def noHyphenPair_Cons)
  define s2 where "s2 = (if s1 \<noteq> [] \<and> last s1 = CHR ''-'' then butlast s1 else s1)"
  have t: "trimHyphens s = s2" by (simp add: trimHyphens_def s1_def s2_def Let_def)
  have a2: "list_all slugChar s2" using a1
    by (auto simp: s2_def list_all_iff dest: in_set_butlastD)
  have n2: "noHyphenPair s2" using n1 by (auto simp: s2_def noHyphenPair_butlast)
  have h2: "s2 = [] \<or> hd s2 \<noteq> CHR ''-''" using h1 by (auto simp: s2_def hd_butlast)
  have l2: "s2 = [] \<or> last s2 \<noteq> CHR ''-''"
    using noHyphenPair_last2[OF n1] by (auto simp: s2_def)
  show ?thesis unfolding t isSlug_def using a2 n2 h2 l2 by auto
qed

lemma trimHyphens_id: "isSlug s \<Longrightarrow> trimHyphens s = s"
  by (auto simp: isSlug_def trimHyphens_def Let_def)

lemma generateAnchorId_isSlug: "isSlug (generateAnchorId x)"
proof -
  let ?f = "filter (\<lambda>c. isWordChar c \<or> isSpaceChar c \<or> c = CHR ''-'') (toLowerCase x)"
  have f: "\<forall>c\<in>set ?f. isSpaceChar c \<or> slugChar c"
    using lower_not_upper by (auto simp: toLowerCase_def slugChar_def isWordChar_def)
  have "set (replaceRuns isSpaceChar ''-'' ?f) \<subseteq> set ''-'' \<union> {c \<in> set ?f. \<not> isSpaceChar c}"
    by (rule replaceRuns_set)
  with f have s: "\<forall>c\<in>set (replaceRuns isSpaceChar ''-'' ?f). slugChar c"
    by (auto simp: slugChar_def)
  have "set (replaceRuns isHyphen ''-'' (replaceRuns isSpaceChar ''-'' ?f))
        \<subseteq> set ''-'' \<union> {c \<in> set (replaceRuns isSpaceChar ''-'' ?f). \<not> isHyphen c}"
    by (rule replaceRuns_set)
  with s have "list_all slugChar (replaceRuns isHyphen ''-'' (replaceRuns isSpaceChar ''-'' ?f))"
    by (auto simp: list_all_iff slugChar_def)
  then show ?thesis
    unfolding generateAnchorId_def by (rule trimHyphens_slug) (rule noHyphenPair_collapse)
qed

lemma generateAnchorId_fix: 
  assumes "isSlug s" shows "generateAnchorId s = s"
proof -
  have a: "list_all slugChar s" and n: "noHyphenPair s" using assms by (auto simp: isSlug_def)
  have 1: "toLowerCase s = s" using a
    by (auto simp: toLowerCase_def list_all_iff slugChar_lower intro: map_idI)
  have 2: "filter (\<lambda>c. isWordChar c \<or> isSpaceChar c \<or> c = CHR ''-'') s = s"
    using a slugChar_keep by (auto simp: list_all_iff)
  have 3: "replaceRuns isSpaceChar ''-'' s = s"
    using a by (auto simp: list_all_iff slugChar_not_space intro: replaceRuns_none)
  show ?thesis
    by (simp add: generateAnchorId_def 1 2 3 collapse_id[OF n] trimHyphens_id[OF assms])
qed

text \<open>
  Claim C6. The slug generator is idempotent: \<open>generateAnchorId (generateAnchorId x)\<close> equals
  \<open>generateAnchorId x\<close> for every string \<open>x\<close>, and \<^verbatim>\<open>Hello, World!\<close> is turned into
  \<^verbatim>\<open>hello-world\<close>.
\<close>

theorem generateAnchorId_idempotent:
  "generateAnchorId (generateAnchorId x) = generateAnchorId x
   \<and> generateAnchorId ''Hello, World!'' = ''hello-world''"
proof
  show "generateAnchorId (generateAnchorId x) = generateAnchorId x"
    by (rule generateAnchorId_fix) (rule generateAnchorId_isSlug)
  show "generateAnchorId ''Hello, World!'' = ''hello-world''"
    by code_simp
qed

theorem generateAnchorId_idempotent_witness:
  "generateAnchorId ''  --Getting   Started: FAQ?--'' = ''getting-started-faq''
   \<and> generateAnchorId (generateAnchorId ''  --Getting   Started: FAQ?--'') = ''getting-started-faq''"
proof -
  have e: "generateAnchorId ''  --Getting   Started: FAQ?--'' = ''getting-started-faq''"
    by code_simp
  show ?thesis
    using generateAnchorId_idempotent [of "''  --Getting   Started: FAQ?--''"] by (simp add: e)
qed

section \<open>Fallbacks of relative link resolution\<close>

lemma includesStr_char: "includesStr s [c] = (c \<in> set s)"
  by (induction s) (auto simp: startsWith_def)

lemma endsWith_md_dot: "endsWith s ''.md'' \<Longrightarrow> includesStr s ''.''"
proof -
  assume "endsWith s ''.md''"
  then have "drop (length s - length ''.md'') s = ''.md''" unfolding endsWith_def by blast
  then have "CHR ''.'' \<in> set (drop (length s - length ''.md'') s)" by simp
  then have "CHR ''.'' \<in> set s" by (rule in_set_dropD)
  then show ?thesis by (simp add: includesStr_char)
qed

text \<open>
  Claim C2, as stated, fails. The claim lets \<open>resolveRelativeLink\<close> try its two fallbacks only
  when no file exists at the exact resolved path. Here the extension-less file
  \<^verbatim>\<open>/p/docs/guide\<close> exists at the exact resolved path, and the link is still resolved to
  \<^verbatim>\<open>docs/guide.md\<close> by the first fallback.
\<close>

theorem resolveRelativeLink_fallback_counterexample:
  "resolveTarget ''docs/a.md'' ''guide'' = ''docs/guide''
   \<and> fileExists [''/p/docs/guide'' \<mapsto> ''x'', ''/p/docs/guide.md'' \<mapsto> ''y'']
        (joinPaths [''/p'', ''docs/guide''])
   \<and> rp_resolved (resolveRelativeLink [''/p/docs/guide'' \<mapsto> ''x'', ''/p/docs/guide.md'' \<mapsto> ''y'']
        ''docs/a.md'' ''guide'' ''/p'') = ''docs/guide.md''"
  by code_simp

text \<open>
  The second condition of the claim, that the resolved path has no extension, is in the code the
  test that the resolved path contains no dot at all: a dot in a directory name switches the
  fallbacks off, although the last segment has no extension.
\<close>

lemma resolveRelativeLink_dotted_directory:
  "rp_resolved (resolveRelativeLink [''/p/v1.2/guide.md'' \<mapsto> ''y''] ''a.md'' ''v1.2/guide'' ''/p'')
     = ''v1.2/guide''"
  by code_simp

text \<open>
  Claim C2, amended. For every source file and every link target with a non-empty path part,
  \<open>resolveRelativeLink\<close> tries the two fallbacks (appending \<^verbatim>\<open>.md\<close>, then \<^verbatim>\<open>README.md\<close> inside a
  directory of that name) exactly when the resolved path contains no dot, whether or not a file
  exists at that exact resolved path. The first fallback that exists on disk becomes the
  resolved path, and otherwise the original resolution is kept.
\<close>

theorem resolveRelativeLink_fallbacks:
  assumes "fst (splitAnchor linkTarget) \<noteq> []"
  shows "let r0 = resolveTarget sourceFile (fst (splitAnchor linkTarget));
             fullPath = joinPaths [projectRoot, r0];
             res = rp_resolved (resolveRelativeLink fs sourceFile linkTarget projectRoot)
         in (includesStr r0 ''.'' \<longrightarrow> res = r0)
          \<and> (\<not> includesStr r0 ''.'' \<longrightarrow>
               (fileExists fs (fullPath @ ''.md'') \<longrightarrow> res = r0 @ ''.md'')
             \<and> (\<not> fileExists fs (fullPath @ ''.md'') \<and> fileExists fs (joinPaths [fullPath, ''README.md''])
                  \<longrightarrow> res = joinPaths [r0, ''README.md''])
             \<and> (\<not> fileExists fs (fullPath @ ''.md'') \<and> \<not> fileExists fs (joinPaths [fullPath, ''README.md''])
                  \<longrightarrow> res = r0))"
  using assms endsWith_md_dot[of "resolveTarget sourceFile (fst (splitAnchor linkTarget))"]
  by (auto simp: resolveRelativeLink_def Let_def split: prod.splits)

theorem resolveRelativeLink_fallbacks_witness:
  "fst (splitAnchor ''guide/#top'') \<noteq> []
   \<and> \<not> includesStr (resolveTarget ''docs/a.md'' ''guide/'') ''.''
   \<and> rp_resolved (resolveRelativeLink [''/p/docs/guide/README.md'' \<mapsto> ''x'']
         ''docs/a.md'' ''guide/#top'' ''/p'') = ''docs/guide/README.md''"
proof -
  have h: "fst (splitAnchor ''guide/#top'') \<noteq> []" by code_simp
  have s: "fst (splitAnchor ''guide/#top'') = ''guide/''" by code_simp
  have r: "resolveTarget ''docs/a.md'' ''guide/'' = ''docs/guide''" by code_simp
  have f: "joinPaths [''/p'', ''docs/guide''] = ''/p/docs/guide''" by code_simp
  have j: "joinPaths [''/p/docs/guide'', ''README.md''] = ''/p/docs/guide/README.md''" by code_simp
  have k: "joinPaths [''docs/guide'', ''README.md''] = ''docs/guide/README.md''" by code_simp
  show ?thesis
    using resolveRelativeLink_fallbacks
      [OF h, of "''docs/a.md''" "''/p''" "[''/p/docs/guide/README.md'' \<mapsto> ''x'']"]
    by (simp add: Let_def s r f j k fileExists_def includesStr_char del: includesStr.simps)
qed

section \<open>Validation of a link whose target is missing\<close>

text \<open>
  Claim C5. For every internal link whose resolved target does not exist: when a redirect table
  is supplied and the lookup of the resolved path in it gives a destination that exists on
  disk, \<open>validateLink\<close> returns the status \<^verbatim>\<open>redirect-available\<close>; when there is no such
  destination, it returns the status \<^verbatim>\<open>broken\<close>, with a non-empty error that names the
  resolved path. The project root is a directory: it is not itself a regular file.
\<close>

theorem validateLink_missing_target:
  assumes "link_type link = Internal"
      and "\<not> rp_exists (resolveRelativeLink fs sourceFile (link_target link) projectRoot)"
      and "\<not> fileExists fs (joinPaths [projectRoot, []])"
  shows "let r = rp_resolved (resolveRelativeLink fs sourceFile (link_target link) projectRoot);
             available =
               (case redirectMap of
                  None \<Rightarrow> False
                | Some m \<Rightarrow>
                    (case findRedirectTarget m r of
                       None \<Rightarrow> False
                     | Some d \<Rightarrow> fileExists fs (joinPaths [projectRoot, d])));
             res = validateLink fs sourceFile link projectRoot redirectMap
         in (available \<longrightarrow> vr_status res = RedirectAvailable)
          \<and> (\<not> available \<longrightarrow>
               vr_status res = Broken \<and> vr_error res = Some (''Target not found: '' @ r)
               \<and> vr_error res \<noteq> Some [])"
  using assms
  by (auto simp: validateLink_def Let_def split: option.splits)

theorem validateLink_missing_target_witness:
  "vr_status (validateLink [''/p/docs/new.md'' \<mapsto> ''x''] ''docs/a.md''
       \<lparr>link_raw = ''[x](old.md)'', link_text = ''x'', link_target = ''old.md'',
        link_anchor = None, link_line = 3, link_column = 1, link_type = Internal\<rparr> ''/p''
       (Some \<lparr>entries = [\<lparr>re_from = ''docs/old'', re_to = ''docs/new.md'', re_line = 2\<rparr>],
              fromToMap = [''docs/old'' \<mapsto> ''docs/new.md''],
              toFromMap = [''docs/new.md'' \<mapsto> [''docs/old'']]\<rparr>)) = RedirectAvailable
   \<and> vr_error (validateLink [''/p/docs/new.md'' \<mapsto> ''x''] ''docs/a.md''
       \<lparr>link_raw = ''[x](old.md)'', link_text = ''x'', link_target = ''old.md'',
        link_anchor = None, link_line = 3, link_column = 1, link_type = Internal\<rparr> ''/p'' None)
     = Some ''Target not found: docs/old.md''"
proof -
  let ?fs = "[''/p/docs/new.md'' \<mapsto> ''x'']"
  let ?link = "\<lparr>link_raw = ''[x](old.md)'', link_text = ''x'', link_target = ''old.md'',
        link_anchor = None, link_line = 3, link_column = 1, link_type = Internal\<rparr>"
  let ?m = "\<lparr>entries = [\<lparr>re_from = ''docs/old'', re_to = ''docs/new.md'', re_line = 2\<rparr>],
              fromToMap = [''docs/old'' \<mapsto> ''docs/new.md''],
              toFromMap = [''docs/new.md'' \<mapsto> [''docs/old'']]\<rparr>"
  have t: "link_type ?link = Internal" by simp
  have r: "resolveRelativeLink ?fs ''docs/a.md'' ''old.md'' ''/p''
           = \<lparr>rp_resolved = ''docs/old.md'', rp_exists = False, rp_original = ''old.md'',
              rp_anchor = None\<rparr>"
    by code_simp
  have x: "\<not> rp_exists (resolveRelativeLink ?fs ''docs/a.md'' (link_target ?link) ''/p'')"
    by (simp add: r)
  have d: "\<not> fileExists ?fs (joinPaths [''/p'', []])" by code_simp
  have l: "findRedirectTarget ?m ''docs/old.md'' = Some ''docs/new.md''" by code_simp
  have j: "joinPaths [''/p'', ''docs/new.md''] = ''/p/docs/new.md''" by code_simp
  have 1: "vr_status (validateLink ?fs ''docs/a.md'' ?link ''/p'' (Some ?m)) = RedirectAvailable"
    using validateLink_missing_target [OF t x d, of "Some ?m"]
    by (simp add: Let_def r l j fileExists_def)
  have 2: "vr_error (validateLink ?fs ''docs/a.md'' ?link ''/p'' None)
           = Some ''Target not found: docs/old.md''"
    using validateLink_missing_target [OF t x d, of None]
    by (simp add: Let_def r)
  from 1 2 show ?thesis by simp
qed

section \<open>The redirect strategy of the fix suggester comes first\<close>

lemma findRedirectTarget_exact:
  "fromToMap m v = Some d \<Longrightarrow> findRedirectTarget m v = Some d"
  by (simp add: findRedirectTarget_def)

lemma findRedirectTarget_in_table:
  "findRedirectTarget m v = Some d \<Longrightarrow> \<exists>k. fromToMap m k = Some d"
  by (auto simp: findRedirectTarget_def Let_def split: if_splits)

lemma tryVariations_hit:
  assumes "v \<in> set vs" and "findRedirectTarget m v = Some d" and "d \<noteq> []"
      and "fileExists fs (joinPaths [pr, d])"
  shows "\<exists>s. tryVariations fs p m pr vs = Some s \<and> confidence s = High
             \<and> fileExists fs (joinPaths [pr, suggestedPath s])
             \<and> (\<exists>v'\<in>set vs. findRedirectTarget m v' = Some (suggestedPath s))"
  using assms(1)
proof (induction vs)
  case Nil
  then show ?case by simp
next
  case (Cons a vs)
  show ?case
  proof (cases "\<exists>t. findRedirectTarget m a = Some t \<and> t \<noteq> [] \<and> fileExists fs (joinPaths [pr, t])")
    case True
    then show ?thesis by auto
  next
    case False
    with assms(2-4) have "v \<noteq> a" by auto
    with Cons.prems have "v \<in> set vs" by simp
    from Cons.IH[OF this] obtain s where
      s: "tryVariations fs p m pr vs = Some s" "confidence s = High"
         "fileExists fs (joinPaths [pr, suggestedPath s])"
         "\<exists>v'\<in>set vs. findRedirectTarget m v' = Some (suggestedPath s)"
      by blast
    from False have "tryVariations fs p m pr (a # vs) = tryVariations fs p m pr vs"
      by (auto split: option.splits)
    with s show ?thesis by auto
  qed
qed

text \<open>
  Claim C1, as stated, fails. The broken path \<^verbatim>\<open>//a.md\<close> has the variations \<^verbatim>\<open>//a.md\<close>,
  \<^verbatim>\<open>/a.md\<close>, \<^verbatim>\<open>//a\<close> and \<^verbatim>\<open>/a\<close>. The variation \<^verbatim>\<open>//a\<close> has the redirect entry to
  \<^verbatim>\<open>d.md\<close>, which exists, and no other variation has an entry whose destination exists. The
  suggested path is nevertheless \<^verbatim>\<open>e.md\<close>, the destination of the key \<^verbatim>\<open>a.md\<close>: the lookup for
  the second variation \<^verbatim>\<open>/a.md\<close> strips a further slash inside \<open>findRedirectTarget\<close>.
\<close>

theorem findFixSuggestion_redirect_counterexample:
  "variations ''//a.md'' = [''//a.md'', ''/a.md'', ''//a'', ''/a'']
   \<and> map [''//a.md'' \<mapsto> ''gone.md'', ''a.md'' \<mapsto> ''e.md'', ''//a'' \<mapsto> ''d.md'']
         (variations ''//a.md'') = [Some ''gone.md'', None, Some ''d.md'', None]
   \<and> fileExists [''/p/e.md'' \<mapsto> ''E'', ''/p/d.md'' \<mapsto> ''D''] (joinPaths [''/p'', ''d.md''])
   \<and> \<not> fileExists [''/p/e.md'' \<mapsto> ''E'', ''/p/d.md'' \<mapsto> ''D''] (joinPaths [''/p'', ''gone.md''])
   \<and> map_option suggestedPath
        (fst (findFixSuggestion (\<lambda>r. []) [''/p/e.md'' \<mapsto> ''E'', ''/p/d.md'' \<mapsto> ''D''] None
           \<lparr>vr_sourceFile = ''x.md'',
            vr_link = \<lparr>link_raw = ''[x](///a.md)'', link_text = ''x'', link_target = ''///a.md'',
                       link_anchor = None, link_line = 1, link_column = 1, link_type = Internal\<rparr>,
            vr_status = Broken, vr_resolvedPath = Some ''//a.md'',
            vr_error = Some ''Target not found: //a.md''\<rparr>
           ''/p''
           \<lparr>entries = [],
            fromToMap = [''//a.md'' \<mapsto> ''gone.md'', ''a.md'' \<mapsto> ''e.md'', ''//a'' \<mapsto> ''d.md''],
            toFromMap = Map.empty\<rparr>))
     = Some ''e.md''"
  by code_simp

text \<open>
  Claim C1, amended. For every broken link and redirect table, under a project root that is a
  directory: if the broken path or one of its syntactic variants (without leading slash, without
  \<^verbatim>\<open>.md\<close> suffix, without both) has a redirect-table entry whose destination exists on disk,
  then \<open>findFixSuggestion\<close> returns the suggestion of the redirect strategy, with confidence
  \<^verbatim>\<open>high\<close>. Its suggested path is a destination of the redirect table that exists on disk: what
  \<open>findRedirectTarget\<close> gives for one of the four variants, and the destination of the entry itself
  when the entry is keyed by the broken path as given. The basename, similarity, case-variation
  and neighbour-README strategies are never consulted: the file cache comes back as it was, and
  the result does not depend on the directory scan.
\<close>

theorem findFixSuggestion_redirect_first:
  assumes "\<not> fileExists fs (joinPaths [projectRoot, []])"
      and "v \<in> set (variations (brokenResolvedPath broken))"
      and "fromToMap redirectMap v = Some d"
      and "fileExists fs (joinPaths [projectRoot, d])"
  shows "\<exists>s. findFixSuggestion getAllFiles fs allFilesCache broken projectRoot redirectMap
                = (Some s, allFilesCache)
             \<and> findRedirectSuggestion fs (brokenResolvedPath broken) redirectMap projectRoot = Some s
             \<and> confidence s = High
             \<and> fileExists fs (joinPaths [projectRoot, suggestedPath s])
             \<and> (\<exists>v'\<in>set (variations (brokenResolvedPath broken)).
                    findRedirectTarget redirectMap v' = Some (suggestedPath s))
             \<and> (\<exists>k. fromToMap redirectMap k = Some (suggestedPath s))
             \<and> (v = brokenResolvedPath broken \<longrightarrow> suggestedPath s = d)"
proof -
  let ?p = "brokenResolvedPath broken"
  from assms(1,4) have ne: "d \<noteq> []" by auto
  have ft: "findRedirectTarget redirectMap v = Some d"
    using assms(3) by (rule findRedirectTarget_exact)
  from tryVariations_hit[OF assms(2) ft ne assms(4), of ?p] obtain s where
    s: "tryVariations fs ?p redirectMap projectRoot (variations ?p) = Some s"
       "confidence s = High"
       "fileExists fs (joinPaths [projectRoot, suggestedPath s])"
       "\<exists>v'\<in>set (variations ?p). findRedirectTarget redirectMap v' = Some (suggestedPath s)"
    by blast
  have r: "findRedirectSuggestion fs ?p redirectMap projectRoot = Some s"
    using s(1) by (simp add: findRedirectSuggestion_def)
  have f: "findFixSuggestion getAllFiles fs allFilesCache broken projectRoot redirectMap
           = (Some s, allFilesCache)"
    by (simp add: findFixSuggestion_def r)
  have k: "\<exists>k. fromToMap redirectMap k = Some (suggestedPath s)"
    using s(4) findRedirectTarget_in_table by blast
  have e: "v = ?p \<longrightarrow> suggestedPath s = d"
  proof
    assume "v = ?p"
    with ft ne assms(4) s(1) show "suggestedPath s = d"
      by (auto simp: variations_def)
  qed
  from f r s(2,3,4) k e show ?thesis by blast
qed

theorem findFixSuggestion_redirect_first_witness:
  "\<not> fileExists [''/p/docs/new.md'' \<mapsto> ''N'', ''/p/other/old.md'' \<mapsto> ''O''] (joinPaths [''/p'', []])
   \<and> fileExists [''/p/docs/new.md'' \<mapsto> ''N'', ''/p/other/old.md'' \<mapsto> ''O'']
        (joinPaths [''/p'', ''docs/new.md''])
   \<and> map_option suggestedPath
        (fst (findFixSuggestion (\<lambda>r. [''other/old.md''])
           [''/p/docs/new.md'' \<mapsto> ''N'', ''/p/other/old.md'' \<mapsto> ''O''] None
           \<lparr>vr_sourceFile = ''docs/a.md'',
            vr_link = \<lparr>link_raw = ''[x](old.md)'', link_text = ''x'', link_target = ''old.md'',
                       link_anchor = None, link_line = 1, link_column = 1, link_type = Internal\<rparr>,
            vr_status = Broken, vr_resolvedPath = Some ''docs/old.md'',
            vr_error = Some ''Target not found: docs/old.md''\<rparr>
           ''/p''
           \<lparr>entries = [\<lparr>re_from = ''docs/old.md'', re_to = ''docs/new.md'', re_line = 4\<rparr>],
            fromToMap = [''docs/old.md'' \<mapsto> ''docs/new.md''],
            toFromMap = [''docs/new.md'' \<mapsto> [''docs/old.md'']]\<rparr>))
     = Some ''docs/new.md''"
proof -
  let ?fs = "[''/p/docs/new.md'' \<mapsto> ''N'', ''/p/other/old.md'' \<mapsto> ''O'']"
  let ?b = "\<lparr>vr_sourceFile = ''docs/a.md'',
            vr_link = \<lparr>link_raw = ''[x](old.md)'', link_text = ''x'', link_target = ''old.md'',
                       link_anchor = None, link_line = 1, link_column = 1, link_type = Internal\<rparr>,
            vr_status = Broken, vr_resolvedPath = Some ''docs/old.md'',
            vr_error = Some ''Target not found: docs/old.md''\<rparr>"
  let ?m = "\<lparr>entries = [\<lparr>re_from = ''docs/old.md'', re_to = ''docs/new.md'', re_line = 4\<rparr>],
            fromToMap = [''docs/old.md'' \<mapsto> ''docs/new.md''],
            toFromMap = [''docs/new.md'' \<mapsto> [''docs/old.md'']]\<rparr>"
  have p: "brokenResolvedPath ?b = ''docs/old.md''" by (simp add: brokenResolvedPath_def)
  have h1: "\<not> fileExists ?fs (joinPaths [''/p'', []])" by code_simp
  have h2: "''docs/old.md'' \<in> set (variations (brokenResolvedPath ?b))"
    by (simp add: p variations_def)
  have h3: "fromToMap ?m ''docs/old.md'' = Some ''docs/new.md''" by simp
  have h4: "fileExists ?fs (joinPaths [''/p'', ''docs/new.md''])" by code_simp
  show ?thesis
    using findFixSuggestion_redirect_first
      [OF h1 h2 h3 h4, of "\<lambda>r. [''other/old.md'']" None] h1 h4
    by (auto simp: p)
qed

section \<open>Suggestions for an anchor that is not found\<close>

lemma toLowerCaseChar_idem: "toLowerCaseChar (toLowerCaseChar c) = toLowerCaseChar c"
  by (auto simp: toLowerCaseChar_def code_def)

lemma toLowerCase_idem: "toLowerCase (toLowerCase s) = toLowerCase s"
  by (simp add: toLowerCase_def toLowerCaseChar_idem)

lemma length_toLowerCase: "length (toLowerCase s) = length s"
  by (simp add: toLowerCase_def)

lemma toLowerCase_Nil_iff: "(toLowerCase s = []) = (s = [])"
  by (simp add: toLowerCase_def)

lemma calculateSimilarity_specScore:
  "calculateSimilarity (toLowerCase anchor) ident = specScore anchor ident"
proof (cases "max (length anchor) (length ident) = 0")
  case True
  then show ?thesis
    by (simp add: calculateSimilarity_def specScore_def Let_def length_toLowerCase)
next
  case False
  then show ?thesis
    by (auto simp: calculateSimilarity_def specScore_def Let_def toLowerCase_idem
        length_toLowerCase toLowerCase_Nil_iff)
qed

lemma sorted_desc_sort_key:
  "sorted_wrt (\<lambda>a b. f b \<le> (f a :: rat)) (sort_key (\<lambda>x. - f x) xs)"
proof -
  have "sorted (map (\<lambda>x. - f x) (sort_key (\<lambda>x. - f x) xs))" by (rule sorted_sort_key)
  then show ?thesis by (simp add: sorted_map)
qed

lemma take_top:
  assumes "sorted_wrt R l" and "x \<in> set l" and "x \<notin> set (take n l)"
  shows "length (take n l) = n \<and> (\<forall>y\<in>set (take n l). R y x)"
proof -
  have l: "l = take n l @ drop n l" by simp
  from assms(2,3) have xd: "x \<in> set (drop n l)"
    by (metis Un_iff l set_append)
  then have "n < length l" by (cases "n < length l") auto
  then have len: "length (take n l) = n" by simp
  from assms(1) have "sorted_wrt R (take n l @ drop n l)" by simp
  then have "\<forall>y\<in>set (take n l). \<forall>z\<in>set (drop n l). R y z"
    unfolding sorted_wrt_append by blast
  with xd len show ?thesis by blast
qed

lemma findSimilarAnchors_props:
  fixes a :: string and hs :: "HeadingInfo list"
  defines "ids \<equiv> findSimilarAnchors a hs"
  defines "score \<equiv> (\<lambda>i. calculateSimilarity a i)"
  shows "length ids \<le> 3"
    and "\<forall>i\<in>set ids. i \<in> h_id ` set hs \<and> score i > 1 / 2"
    and "sorted_wrt (\<lambda>x y. score y \<le> score x) ids"
    and "\<forall>h\<in>set hs. score (h_id h) > 1 / 2 \<and> h_id h \<notin> set ids
           \<longrightarrow> length ids = 3 \<and> (\<forall>i\<in>set ids. score (h_id h) \<le> score i)"
proof -
  let ?k = "\<lambda>h. calculateSimilarity a (h_id h)"
  let ?l = "sort_key (\<lambda>h. - ?k h) (filter (\<lambda>h. ?k h > 1 / 2) hs)"
  have ids: "ids = map h_id (take 3 ?l)"
    by (simp add: ids_def findSimilarAnchors_def Let_def)
  show "length ids \<le> 3" by (simp add: ids)
  have sub: "set (take 3 ?l) \<subseteq> set ?l" by (rule set_take_subset)
  show "\<forall>i\<in>set ids. i \<in> h_id ` set hs \<and> score i > 1 / 2"
    using sub by (auto simp: ids score_def)
  have srt: "sorted_wrt (\<lambda>x y. ?k y \<le> ?k x) ?l" by (rule sorted_desc_sort_key)
  then have "sorted_wrt (\<lambda>x y. ?k y \<le> ?k x) (take 3 ?l)" by (rule sorted_wrt_take)
  then show "sorted_wrt (\<lambda>x y. score y \<le> score x) ids"
    by (simp add: ids score_def sorted_wrt_map)
  show "\<forall>h\<in>set hs. score (h_id h) > 1 / 2 \<and> h_id h \<notin> set ids
           \<longrightarrow> length ids = 3 \<and> (\<forall>i\<in>set ids. score (h_id h) \<le> score i)"
  proof (intro ballI impI)
    fix h assume h: "h \<in> set hs" and q: "score (h_id h) > 1 / 2 \<and> h_id h \<notin> set ids"
    then have in_l: "h \<in> set ?l" by (simp add: score_def)
    from q have "h \<notin> set (take 3 ?l)" by (auto simp: ids)
    from take_top[OF srt in_l this]
    have "length (take 3 ?l) = 3" and "\<forall>y\<in>set (take 3 ?l). ?k h \<le> ?k y" by blast+
    then show "length ids = 3 \<and> (\<forall>i\<in>set ids. score (h_id h) \<le> score i)"
      by (auto simp: ids score_def)
  qed
qed

text \<open>
  Claim C8. For every target file that exists and every anchor that matches no heading id of
  it, exactly or without regard to case, \<open>validateAnchor\<close> reports the anchor as invalid and
  returns at most three heading ids as suggestions. Each of them is a heading id of the file
  with a similarity score above one half, the score being one minus the edit distance divided by
  the length of the longer string; they come in descending order of score; and a heading id
  with a score above one half is left out only when three ids with scores at least as high are
  returned. In particular the anchor \<^verbatim>\<open>instalation\<close>, against a file whose only heading id is
  \<^verbatim>\<open>installation\<close>, yields \<^verbatim>\<open>installation\<close>.
\<close>

theorem validateAnchor_suggestions:
  "(fst (getFileHeadings fs cache targetFile projectRoot) = Some headings
     \<and> (\<forall>h\<in>set (fh_headings headings).
            h_id h \<noteq> toLowerCase anchor \<and> toLowerCase (h_id h) \<noteq> toLowerCase anchor)
    \<longrightarrow> (let res = fst (validateAnchor fs cache targetFile anchor projectRoot);
              ids = (case av_suggestions res of None \<Rightarrow> [] | Some l \<Rightarrow> l)
          in \<not> av_valid res
           \<and> length ids \<le> 3
           \<and> (\<forall>i\<in>set ids. i \<in> h_id ` set (fh_headings headings) \<and> specScore anchor i > 1 / 2)
           \<and> sorted_wrt (\<lambda>x y. specScore anchor y \<le> specScore anchor x) ids
           \<and> (\<forall>h\<in>set (fh_headings headings).
                 specScore anchor (h_id h) > 1 / 2 \<and> h_id h \<notin> set ids
                 \<longrightarrow> length ids = 3 \<and> (\<forall>i\<in>set ids. specScore anchor (h_id h) \<le> specScore anchor i))))
   \<and> av_suggestions (fst (validateAnchor [''/p/guide.md'' \<mapsto> ''# Installation''] Map.empty
        ''guide.md'' ''instalation'' ''/p'')) = Some [''installation'']"
proof (intro conjI impI)
  assume a0: "fst (getFileHeadings fs cache targetFile projectRoot) = Some headings
     \<and> (\<forall>h\<in>set (fh_headings headings).
            h_id h \<noteq> toLowerCase anchor \<and> toLowerCase (h_id h) \<noteq> toLowerCase anchor)"
  then obtain cache' where g: "getFileHeadings fs cache targetFile projectRoot = (Some headings, cache')"
    by (cases "getFileHeadings fs cache targetFile projectRoot") auto
  from a0 have a: "\<forall>h\<in>set (fh_headings headings).
            h_id h \<noteq> toLowerCase anchor \<and> toLowerCase (h_id h) \<noteq> toLowerCase anchor"
    by blast
  let ?hs = "fh_headings headings"
  let ?s = "findSimilarAnchors (toLowerCase anchor) ?hs"
  have n1: "List.find (\<lambda>h. h_id h = toLowerCase anchor) ?hs = None"
    using a by (auto simp: find_None_iff)
  have n2: "List.find (\<lambda>h. toLowerCase (h_id h) = toLowerCase anchor) ?hs = None"
    using a by (auto simp: find_None_iff)
  have res: "fst (validateAnchor fs cache targetFile anchor projectRoot)
             = \<lparr>av_valid = False,
                av_error = Some (''Anchor not found: #'' @ anchor @ '' in '' @ targetFile),
                av_suggestions = (if length ?s > 0 then Some ?s else None)\<rparr>"
    by (simp add: validateAnchor_def Let_def g n1 n2)
  have ids: "(case av_suggestions (fst (validateAnchor fs cache targetFile anchor projectRoot)) of
                None \<Rightarrow> [] | Some l \<Rightarrow> l) = ?s"
    by (simp add: res)
  note p = findSimilarAnchors_props[where a = "toLowerCase anchor" and hs = ?hs, unfolded calculateSimilarity_specScore]
  show "let res = fst (validateAnchor fs cache targetFile anchor projectRoot);
            ids = (case av_suggestions res of None \<Rightarrow> [] | Some l \<Rightarrow> l)
        in \<not> av_valid res
         \<and> length ids \<le> 3
         \<and> (\<forall>i\<in>set ids. i \<in> h_id ` set (fh_headings headings) \<and> specScore anchor i > 1 / 2)
         \<and> sorted_wrt (\<lambda>x y. specScore anchor y \<le> specScore anchor x) ids
         \<and> (\<forall>h\<in>set (fh_headings headings).
               specScore anchor (h_id h) > 1 / 2 \<and> h_id h \<notin> set ids
               \<longrightarrow> length ids = 3 \<and> (\<forall>i\<in>set ids. specScore anchor (h_id h) \<le> specScore anchor i))"
    unfolding Let_def ids using p by (simp add: res)
next
  show "av_suggestions (fst (validateAnchor [''/p/guide.md'' \<mapsto> ''# Installation''] Map.empty
        ''guide.md'' ''instalation'' ''/p'')) = Some [''installation'']"
    by code_simp
qed

theorem validateAnchor_suggestions_witness:
  "fst (getFileHeadings [''/p/guide.md'' \<mapsto> ''# Installation''] Map.empty ''guide.md'' ''/p'')
     = Some \<lparr>fh_filePath = ''guide.md'',
             fh_headings = [\<lparr>h_text = ''Installation'', h_id = ''installation'', h_level = 1,
                             h_line = 1\<rparr>]\<rparr>
   \<and> \<not> av_valid (fst (validateAnchor [''/p/guide.md'' \<mapsto> ''# Installation''] Map.empty
           ''guide.md'' ''instalation'' ''/p''))
   \<and> av_suggestions (fst (validateAnchor [''/p/guide.md'' \<mapsto> ''# Installation''] Map.empty
        ''guide.md'' ''instalation'' ''/p'')) = Some [''installation'']
   \<and> specScore ''instalation'' ''installation'' > 1 / 2"
proof -
  let ?fs = "[''/p/guide.md'' \<mapsto> ''# Installation'']"
  let ?H = "\<lparr>fh_filePath = ''guide.md'',
             fh_headings = [\<lparr>h_text = ''Installation'', h_id = ''installation'', h_level = 1,
                             h_line = 1\<rparr>]\<rparr>"
  have g: "fst (getFileHeadings ?fs Map.empty ''guide.md'' ''/p'') = Some ?H"
    by code_simp
  have n: "\<forall>h\<in>set (fh_headings ?H).
             h_id h \<noteq> toLowerCase ''instalation''
             \<and> toLowerCase (h_id h) \<noteq> toLowerCase ''instalation''"
    by code_simp
  note t = validateAnchor_suggestions
    [of ?fs Map.empty "''guide.md''" "''/p''" ?H "''instalation''"]
  from t have s: "av_suggestions (fst (validateAnchor ?fs Map.empty ''guide.md'' ''instalation''
                    ''/p'')) = Some [''installation'']"
    by blast
  from t g n have
    "let res = fst (validateAnchor ?fs Map.empty ''guide.md'' ''instalation'' ''/p'');
         ids = (case av_suggestions res of None \<Rightarrow> [] | Some l \<Rightarrow> l)
     in \<not> av_valid res
        \<and> (\<forall>i\<in>set ids. i \<in> h_id ` set (fh_headings ?H) \<and> specScore ''instalation'' i > 1 / 2)"
    unfolding Let_def by blast
  with s have "\<not> av_valid (fst (validateAnchor ?fs Map.empty ''guide.md'' ''instalation'' ''/p''))
               \<and> specScore ''instalation'' ''installation'' > 1 / 2"
    by (simp add: Let_def)
  with g s show ?thesis by blast
qed

section \<open>Link path cleaning never throws\<close>

text \<open>
  Claim C10. Link-path cleaning is total: for every input string, whatever the percent-decoding
  does with it, \<open>cleanLinkPath\<close> returns a result and does not throw. When the decoding throws,
  the input string itself goes into the Markdown-escape replacements; when it succeeds, the
  decoded string does.
\<close>

theorem cleanLinkPath_total:
  "\<exists>r. cleanLinkPath decodeURIComponent link = Inr r
       \<and> (\<forall>e. decodeURIComponent link = Inl e \<longrightarrow> r = unescapeMarkdown link)
       \<and> (\<forall>decoded. decodeURIComponent link = Inr decoded \<longrightarrow> r = unescapeMarkdown decoded)"
  by (cases "decodeURIComponent link") (simp_all add: cleanLinkPath_def decodeLink_def)

theorem cleanLinkPath_total_witness:
  "sampleDecoder (''prefill'' @ [CHR 0x5C] @ ''_Page%zz'') = Inl URIError
   \<and> cleanLinkPath sampleDecoder (''prefill'' @ [CHR 0x5C] @ ''_Page%zz'') = Inr ''prefill_Page%zz''"
proof -
  have d: "sampleDecoder (''prefill'' @ [CHR 0x5C] @ ''_Page%zz'') = Inl URIError" by code_simp
  have u: "unescapeMarkdown (''prefill'' @ [CHR 0x5C] @ ''_Page%zz'') = ''prefill_Page%zz''" by code_simp
  show ?thesis
    using cleanLinkPath_total [of sampleDecoder "''prefill'' @ [CHR 0x5C] @ ''_Page%zz''"] d u by auto
qed

section \<open>The navigation forest\<close>

lemma scan_Some_iff:
  fixes d :: "nat \<Rightarrow> nat"
  shows "(List.find (\<lambda>i. d i < v) (rev [0..<j]) = Some i)
     = (i < j \<and> d i < v \<and> (\<forall>k. i < k \<and> k < j \<longrightarrow> v \<le> d k))"
proof (induction j)
  case 0
  show ?case by simp
next
  case (Suc j)
  show ?case
  proof (cases "d j < v")
    case True
    have "(i = j) = (i < Suc j \<and> d i < v \<and> (\<forall>k. i < k \<and> k < Suc j \<longrightarrow> v \<le> d k))"
    proof
      assume "i = j" with True show "i < Suc j \<and> d i < v \<and> (\<forall>k. i < k \<and> k < Suc j \<longrightarrow> v \<le> d k)"
        by auto
    next
      assume a: "i < Suc j \<and> d i < v \<and> (\<forall>k. i < k \<and> k < Suc j \<longrightarrow> v \<le> d k)"
      show "i = j"
      proof (rule ccontr)
        assume "i \<noteq> j"
        with a have "i < j" by simp
        with a have "v \<le> d j" by simp
        with True show False by simp
      qed
    qed
    with True show ?thesis by auto
  next
    case False
    have "(i < j \<and> d i < v \<and> (\<forall>k. i < k \<and> k < j \<longrightarrow> v \<le> d k))
          = (i < Suc j \<and> d i < v \<and> (\<forall>k. i < k \<and> k < Suc j \<longrightarrow> v \<le> d k))"
    proof
      assume a: "i < j \<and> d i < v \<and> (\<forall>k. i < k \<and> k < j \<longrightarrow> v \<le> d k)"
      have "\<forall>k. i < k \<and> k < Suc j \<longrightarrow> v \<le> d k"
      proof (intro allI impI)
        fix k assume k: "i < k \<and> k < Suc j"
        show "v \<le> d k"
        proof (cases "k = j")
          case True
          with \<open>\<not> d j < v\<close> show ?thesis by simp
        next
          case False
          with k have "k < j" by simp
          with a k show ?thesis by simp
        qed
      qed
      with a show "i < Suc j \<and> d i < v \<and> (\<forall>k. i < k \<and> k < Suc j \<longrightarrow> v \<le> d k)" by simp
    next
      assume a: "i < Suc j \<and> d i < v \<and> (\<forall>k. i < k \<and> k < Suc j \<longrightarrow> v \<le> d k)"
      have "i \<noteq> j" using a False by auto
      with a have "i < j" by simp
      with a show "i < j \<and> d i < v \<and> (\<forall>k. i < k \<and> k < j \<longrightarrow> v \<le> d k)" by simp
    qed
    with False Suc show ?thesis by simp
  qed
qed

lemma scan_None_iff:
  fixes d :: "nat \<Rightarrow> nat"
  shows "(List.find (\<lambda>i. d i < v) (rev [0..<j]) = None) = (\<forall>k<j. v \<le> d k)"
proof -
  have "(\<not> (\<exists>x. x \<in> set (rev [0..<j]) \<and> d x < v)) = (\<forall>k<j. v \<le> d k)"
  proof
    assume a: "\<not> (\<exists>x. x \<in> set (rev [0..<j]) \<and> d x < v)"
    show "\<forall>k<j. v \<le> d k"
    proof (intro allI impI)
      fix k assume "k < j"
      then have "k \<in> set (rev [0..<j])" by simp
      with a have "\<not> d k < v" by blast
      then show "v \<le> d k" by simp
    qed
  next
    assume a: "\<forall>k<j. v \<le> d k"
    show "\<not> (\<exists>x. x \<in> set (rev [0..<j]) \<and> d x < v)"
    proof
      assume "\<exists>x. x \<in> set (rev [0..<j]) \<and> d x < v"
      then obtain x where x: "x < j" "d x < v" by auto
      with a have "v \<le> d x" by simp
      with x show False by simp
    qed
  qed
  then show ?thesis by (simp only: find_None_iff)
qed

lemma nearestShallower_Some_iff:
  "(nearestShallower d j = Some i)
     = (i < j \<and> d i < d j \<and> (\<forall>k. i < k \<and> k < j \<longrightarrow> d j \<le> d k))"
  unfolding nearestShallower_def by (rule scan_Some_iff)

lemma nearestShallower_None_iff:
  "(nearestShallower d j = None) = (\<forall>k<j. d j \<le> d k)"
  unfolding nearestShallower_def by (rule scan_None_iff)

lemma nearestShallower_cong:
  assumes "\<forall>i\<le>j. d i = d' i"
  shows "nearestShallower d j = nearestShallower d' j"
proof -
  have eq: "k \<le> j \<Longrightarrow> d k = d' k" for k using assms by simp
  show ?thesis
  proof (cases "nearestShallower d j")
    case None
    then have a: "\<forall>k<j. d j \<le> d k" by (simp add: nearestShallower_None_iff)
    have "\<forall>k<j. d' j \<le> d' k"
    proof (intro allI impI)
      fix k assume k: "k < j"
      with a have "d j \<le> d k" by simp
      with eq[of k] eq[of j] k show "d' j \<le> d' k" by simp
    qed
    then have "nearestShallower d' j = None" by (simp add: nearestShallower_None_iff)
    with None show ?thesis by simp
  next
    case (Some i)
    then have a: "i < j" "d i < d j" "\<forall>k. i < k \<and> k < j \<longrightarrow> d j \<le> d k"
      by (simp_all add: nearestShallower_Some_iff)
    have 1: "d' i < d' j" using eq[of i] eq[of j] a(1,2) by simp
    have 2: "\<forall>k. i < k \<and> k < j \<longrightarrow> d' j \<le> d' k"
    proof (intro allI impI)
      fix k assume k: "i < k \<and> k < j"
      with a(3) have "d j \<le> d k" by simp
      with eq[of k] eq[of j] k show "d' j \<le> d' k" by simp
    qed
    from a(1) 1 2 have "nearestShallower d' j = Some i" by (simp add: nearestShallower_Some_iff)
    with Some show ?thesis by simp
  qed
qed

lemma stackOk_cong:
  assumes "list_all (\<lambda>a. a < n) s" and "\<forall>i<n. d i = d' i"
  shows "stackOk d s = stackOk d' s"
  using assms(1)
proof (induction s)
  case Nil
  show ?case by simp
next
  case (Cons a r)
  then have "a < n" by simp
  with assms(2) have "\<forall>i\<le>a. d i = d' i" by simp
  then have ns: "nearestShallower d a = nearestShallower d' a"
    by (rule nearestShallower_cong)
  from Cons have ih: "stackOk d r = stackOk d' r" by simp
  show ?case
  proof (cases r)
    case Nil
    with ns show ?thesis by simp
  next
    case (Cons b r')
    with ns ih show ?thesis by simp
  qed
qed

lemma stackOk_tl: "stackOk d (a # r) \<Longrightarrow> stackOk d r"
  by (cases r) auto

lemma pop_stack:
  assumes "stackOk d s" and "list_all (\<lambda>a. a < n) s"
      and "s \<noteq> [] \<longrightarrow> (\<forall>k. hd s < k \<and> k < n \<longrightarrow> v \<le> d k)"
      and "s = [] \<longrightarrow> (\<forall>k<n. v \<le> d k)"
  shows "(dropWhile (\<lambda>a. v \<le> d a) s = [] \<longrightarrow> (\<forall>k<n. v \<le> d k))
       \<and> (\<forall>p q. dropWhile (\<lambda>a. v \<le> d a) s = p # q \<longrightarrow>
             p < n \<and> d p < v \<and> (\<forall>k. p < k \<and> k < n \<longrightarrow> v \<le> d k))
       \<and> stackOk d (dropWhile (\<lambda>a. v \<le> d a) s)
       \<and> list_all (\<lambda>a. a < n) (dropWhile (\<lambda>a. v \<le> d a) s)"
  using assms
proof (induction s)
  case Nil
  then show ?case by simp
next
  case (Cons a r)
  show ?case
  proof (cases "v \<le> d a")
    case False
    then have dw: "dropWhile (\<lambda>a. v \<le> d a) (a # r) = a # r" by simp
    have 1: "a < n" using Cons.prems(2) by simp
    have 2: "d a < v" using False by simp
    have 3: "\<forall>k. a < k \<and> k < n \<longrightarrow> v \<le> d k" using Cons.prems(3) by simp
    show ?thesis
      unfolding dw using 1 2 3 Cons.prems(1,2) by simp
  next
    case True
    have above: "\<forall>k. a < k \<and> k < n \<longrightarrow> v \<le> d k" using Cons.prems(3) by simp
    have ok: "stackOk d r" using Cons.prems(1) by (rule stackOk_tl)
    have lt: "list_all (\<lambda>a. a < n) r" using Cons.prems(2) by simp
    have an: "a < n" using Cons.prems(2) by simp
    have c3: "r \<noteq> [] \<longrightarrow> (\<forall>k. hd r < k \<and> k < n \<longrightarrow> v \<le> d k)"
    proof (intro impI allI)
      fix k assume rn: "r \<noteq> []" and k: "hd r < k \<and> k < n"
      from rn obtain b r' where r: "r = b # r'" by (cases r) auto
      with Cons.prems(1) have ns: "nearestShallower d a = Some b" by simp
      then have b: "b < a" "\<forall>k. b < k \<and> k < a \<longrightarrow> d a \<le> d k"
        by (simp_all add: nearestShallower_Some_iff)
      consider "k < a" | "k = a" | "a < k" by linarith
      then show "v \<le> d k"
      proof cases
        case 1
        with k r b have "d a \<le> d k" by simp
        with True show ?thesis by simp
      next
        case 2
        with True show ?thesis by simp
      next
        case 3
        with k above show ?thesis by simp
      qed
    qed
    have c4: "r = [] \<longrightarrow> (\<forall>k<n. v \<le> d k)"
    proof (intro impI allI)
      fix k assume rn: "r = []" and k: "k < n"
      with Cons.prems(1) have "nearestShallower d a = None" by simp
      then have b: "\<forall>k<a. d a \<le> d k" by (simp add: nearestShallower_None_iff)
      consider "k < a" | "k = a" | "a < k" by linarith
      then show "v \<le> d k"
      proof cases
        case 1
        with b have "d a \<le> d k" by simp
        with True show ?thesis by simp
      next
        case 2
        with True show ?thesis by simp
      next
        case 3
        with k above show ?thesis by simp
      qed
    qed
    from True have dw: "dropWhile (\<lambda>a. v \<le> d a) (a # r) = dropWhile (\<lambda>a. v \<le> d a) r"
      by simp
    show ?thesis unfolding dw by (rule Cons.IH[OF ok lt c3 c4])
  qed
qed


lemma dropWhile_stack_cong:
  fixes n :: nat
  assumes "list_all (\<lambda>a. a < n) s"
  shows "dropWhile (\<lambda>a. dep \<le> se_depth ((h(n := e)) a)) s = dropWhile (\<lambda>a. dep \<le> se_depth (h a)) s"
proof (rule dropWhile_cong)
  show "s = s" by simp
next
  fix x assume "x \<in> set s"
  with assms have "x < n" by (simp add: list_all_iff)
  then have "x \<noteq> n" by simp
  then show "(dep \<le> se_depth ((h(n := e)) x)) = (dep \<le> se_depth (h x))" by simp
qed

lemma pop_result:
  fixes dep :: nat
  assumes inv: "summaryInv st"
  defines "n \<equiv> st_count st"
  defines "d' \<equiv> (depthOf st)(n := dep)"
  defines "s' \<equiv> dropWhile (\<lambda>a. dep \<le> depthOf st a) (st_parentStack st)"
  shows "nearestShallower d' n = (case s' of [] \<Rightarrow> None | p # q \<Rightarrow> Some p)"
    and "stackOk d' s'"
    and "list_all (\<lambda>a. a < n) s'"
proof -
  let ?d = "depthOf st"
  let ?s = "st_parentStack st"
  have hdc: "n = 0 \<and> ?s = [] \<or> n > 0 \<and> ?s \<noteq> [] \<and> hd ?s = n - 1"
    using inv by (simp add: summaryInv_def n_def)
  have lt: "list_all (\<lambda>a. a < n) ?s" using inv by (simp add: summaryInv_def n_def)
  have ok: "stackOk ?d ?s" using inv by (simp add: summaryInv_def)
  have c3: "?s \<noteq> [] \<longrightarrow> (\<forall>k. hd ?s < k \<and> k < n \<longrightarrow> dep \<le> ?d k)"
  proof (intro impI allI)
    fix k assume "?s \<noteq> []" and k: "hd ?s < k \<and> k < n"
    with hdc have "hd ?s = n - 1" by auto
    with k have False by linarith
    then show "dep \<le> ?d k" ..
  qed
  have c4: "?s = [] \<longrightarrow> (\<forall>k<n. dep \<le> ?d k)"
    using hdc by auto
  note p = pop_stack[OF ok lt c3 c4, folded s'_def]
  have agree: "\<forall>i<n. ?d i = d' i" by (simp add: d'_def)
  show l: "list_all (\<lambda>a. a < n) s'" using p by blast
  have "stackOk ?d s'" using p by blast
  then show "stackOk d' s'" using stackOk_cong[OF l agree] by simp
  show "nearestShallower d' n = (case s' of [] \<Rightarrow> None | p # q \<Rightarrow> Some p)"
  proof (cases s')
    case Nil
    with p have "\<forall>k<n. dep \<le> ?d k" by blast
    then have "\<forall>k<n. d' n \<le> d' k" by (simp add: d'_def)
    then have "nearestShallower d' n = None" by (subst nearestShallower_None_iff) blast
    with Nil show ?thesis by simp
  next
    case (Cons p' q')
    with p have a: "p' < n \<and> ?d p' < dep \<and> (\<forall>k. p' < k \<and> k < n \<longrightarrow> dep \<le> ?d k)" by blast
    then have "p' < n \<and> d' p' < d' n \<and> (\<forall>k. p' < k \<and> k < n \<longrightarrow> d' n \<le> d' k)"
      by (simp add: d'_def)
    then have "nearestShallower d' n = Some p'" by (subst nearestShallower_Some_iff) blast
    with Cons show ?thesis by simp
  qed
qed

lemma nearestShallower_old:
  assumes "j < n"
  shows "nearestShallower (d(n := dep)) j = nearestShallower d j"
  by (rule nearestShallower_cong) (use assms in simp)

lemma nearestShallower_less: "nearestShallower d j = Some i \<Longrightarrow> i < j"
  by (simp add: nearestShallower_Some_iff)


lemma inv_step:
  fixes n :: nat and d :: "nat \<Rightarrow> nat"
  assumes ch: "\<forall>i j. (j \<in> set (se_children (heap i))) = (j < n \<and> nearestShallower d j = Some i)"
      and en: "\<forall>j. (j \<in> set ents) = (j < n \<and> nearestShallower d j = None)"
      and ns: "nearestShallower (d(n := dep)) n = np"
      and ok: "stackOk (d(n := dep)) (n # s')"
      and lt: "list_all (\<lambda>a. a < n) s'"
      and dp: "\<forall>i. se_depth (heap' i) = (d(n := dep)) i"
      and ch': "\<forall>i. set (se_children (heap' i))
                  = set (se_children (heap i)) \<union> (if np = Some i then {n} else {})"
      and en': "set ents' = set ents \<union> (if np = None then {n} else {})"
  shows "summaryInv \<lparr>st_heap = heap', st_count = Suc n, st_entries = ents',
                     st_allPaths = ap, st_parentStack = n # s'\<rparr>"
proof -
  let ?d' = "d(n := dep)"
  have dfun: "(\<lambda>i. se_depth (heap' i)) = ?d'" using dp by (intro ext) simp
  have old: "nearestShallower ?d' j = nearestShallower d j" if "j < n" for j
    by (rule nearestShallower_cong) (use that in simp)
  have lt2: "list_all (\<lambda>a. a < Suc n) (n # s')"
    using lt by (auto simp: list_all_iff)
  have c: "(j \<in> set (se_children (heap' i))) = (j < Suc n \<and> nearestShallower ?d' j = Some i)"
    for i j
  proof (cases "j = n")
    case True
    have "n \<notin> set (se_children (heap i))" using ch by simp
    with True ch' ns show ?thesis by auto
  next
    case False
    then have "(j \<in> set (se_children (heap' i))) = (j \<in> set (se_children (heap i)))"
      using ch' by auto
    also have "\<dots> = (j < n \<and> nearestShallower d j = Some i)" using ch by simp
    also have "\<dots> = (j < Suc n \<and> nearestShallower ?d' j = Some i)"
      using False old[of j] by (cases "j < n") auto
    finally show ?thesis .
  qed
  have e: "(j \<in> set ents') = (j < Suc n \<and> nearestShallower ?d' j = None)" for j
  proof (cases "j = n")
    case True
    have "n \<notin> set ents" using en by simp
    with True en' ns show ?thesis by auto
  next
    case False
    then have "(j \<in> set ents') = (j \<in> set ents)" using en' by auto
    also have "\<dots> = (j < n \<and> nearestShallower d j = None)" using en by simp
    also have "\<dots> = (j < Suc n \<and> nearestShallower ?d' j = None)"
      using False old[of j] by (cases "j < n") auto
    finally show ?thesis .
  qed
  show ?thesis
    unfolding summaryInv_def depthOf_def
    using lt2 ok c e by (simp add: dfun)
qed

lemma addEntry_inv:
  assumes inv: "summaryInv st"
  shows "summaryInv (addEntry st title path lno dep)"
proof -
  define n where "n = st_count st"
  define d where "d = depthOf st"
  define e where "e = \<lparr>se_title = title, se_path = path, se_line = lno, se_depth = dep,
                        se_children = []\<rparr>"
  define heap1 where "heap1 = (st_heap st)(n := e)"
  define s' where "s' = dropWhile (\<lambda>a. dep \<le> depthOf st a) (st_parentStack st)"
  have lt: "list_all (\<lambda>a. a < n) (st_parentStack st)"
    using inv by (simp add: summaryInv_def n_def)
  have sw: "dropWhile (\<lambda>a. dep \<le> se_depth (heap1 a)) (st_parentStack st) = s'"
    unfolding heap1_def s'_def depthOf_def by (rule dropWhile_stack_cong[OF lt])
  have ns: "nearestShallower (d(n := dep)) n = (case s' of [] \<Rightarrow> None | p # q \<Rightarrow> Some p)"
    unfolding d_def n_def s'_def by (rule pop_result(1)[OF inv])
  have ok': "stackOk (d(n := dep)) s'"
    unfolding d_def n_def s'_def by (rule pop_result(2)[OF inv])
  have lt': "list_all (\<lambda>a. a < n) s'"
    unfolding n_def s'_def by (rule pop_result(3)[OF inv])
  have ch: "\<forall>i j. (j \<in> set (se_children (st_heap st i))) = (j < n \<and> nearestShallower d j = Some i)"
    using inv by (simp add: summaryInv_def n_def d_def)
  have en: "\<forall>j. (j \<in> set (st_entries st)) = (j < n \<and> nearestShallower d j = None)"
    using inv by (simp add: summaryInv_def n_def d_def)
  have nochild: "set (se_children (st_heap st n)) = {}"
  proof -
    have "j \<notin> set (se_children (st_heap st n))" for j
    proof
      assume "j \<in> set (se_children (st_heap st n))"
      with ch have "j < n" "nearestShallower d j = Some n" by simp_all
      then show False using nearestShallower_less[of d j n] by simp
    qed
    then show ?thesis by (cases "se_children (st_heap st n)") auto
  qed
  have dp1: "\<forall>i. se_depth (heap1 i) = (d(n := dep)) i"
    by (simp add: heap1_def e_def d_def depthOf_def)
  have ch1: "\<forall>i. set (se_children (heap1 i)) = set (se_children (st_heap st i))"
    using nochild by (simp add: heap1_def e_def)
  have root: "summaryInv \<lparr>st_heap = heap1, st_count = Suc n, st_entries = st_entries st @ [n],
                st_allPaths = st_allPaths st @ [path], st_parentStack = [n]\<rparr>"
    if np: "nearestShallower (d(n := dep)) n = None"
  proof (rule inv_step[OF ch en np _ _ dp1])
    show "stackOk (d(n := dep)) [n]" using np by simp
    show "list_all (\<lambda>a. a < n) []" by simp
    show "\<forall>i. set (se_children (heap1 i))
             = set (se_children (st_heap st i)) \<union> (if None = Some i then {n} else {})"
      using ch1 by simp
    show "set (st_entries st @ [n]) = set (st_entries st) \<union> (if None = None then {n} else {})"
      by simp
  qed
  have ae0: "addEntry st title path lno dep =
      (if dep = 0 then
         \<lparr>st_heap = heap1, st_count = Suc n, st_entries = st_entries st @ [n],
          st_allPaths = st_allPaths st @ [path], st_parentStack = [n]\<rparr>
       else
         (case dropWhile (\<lambda>a. dep \<le> se_depth (heap1 a)) (st_parentStack st) of
            [] \<Rightarrow>
              \<lparr>st_heap = heap1, st_count = Suc n, st_entries = st_entries st @ [n],
               st_allPaths = st_allPaths st @ [path], st_parentStack = [n]\<rparr>
          | parent # others \<Rightarrow>
              \<lparr>st_heap = heap1
                 (parent := (heap1 parent)\<lparr>se_children := se_children (heap1 parent) @ [n]\<rparr>),
               st_count = Suc n, st_entries = st_entries st,
               st_allPaths = st_allPaths st @ [path],
               st_parentStack = n # dropWhile (\<lambda>a. dep \<le> se_depth (heap1 a)) (st_parentStack st)\<rparr>))"
    unfolding addEntry_def Let_def n_def heap1_def e_def by (rule refl)
  have ae: "addEntry st title path lno dep =
      (if dep = 0 then
         \<lparr>st_heap = heap1, st_count = Suc n, st_entries = st_entries st @ [n],
          st_allPaths = st_allPaths st @ [path], st_parentStack = [n]\<rparr>
       else
         (case s' of
            [] \<Rightarrow>
              \<lparr>st_heap = heap1, st_count = Suc n, st_entries = st_entries st @ [n],
               st_allPaths = st_allPaths st @ [path], st_parentStack = [n]\<rparr>
          | parent # others \<Rightarrow>
              \<lparr>st_heap = heap1
                 (parent := (heap1 parent)\<lparr>se_children := se_children (heap1 parent) @ [n]\<rparr>),
               st_count = Suc n, st_entries = st_entries st,
               st_allPaths = st_allPaths st @ [path],
               st_parentStack = n # s'\<rparr>))"
    using ae0 unfolding sw .
  show ?thesis
  proof (cases "dep = 0")
    case True
    have "\<forall>k<n. (d(n := dep)) n \<le> (d(n := dep)) k" using True by simp
    then have np: "nearestShallower (d(n := dep)) n = None"
      by (subst nearestShallower_None_iff) blast
    show ?thesis unfolding ae using root[OF np] True by simp
  next
    case False
    show ?thesis
    proof (cases s')
      case Nil
      with ns have np: "nearestShallower (d(n := dep)) n = None" by simp
      show ?thesis unfolding ae using root[OF np] False Nil by simp
    next
      case (Cons p q)
      with ns have np: "nearestShallower (d(n := dep)) n = Some p" by simp
      define heap2 where
        "heap2 = heap1(p := (heap1 p)\<lparr>se_children := se_children (heap1 p) @ [n]\<rparr>)"
      have "summaryInv \<lparr>st_heap = heap2, st_count = Suc n, st_entries = st_entries st,
               st_allPaths = st_allPaths st @ [path], st_parentStack = n # s'\<rparr>"
      proof (rule inv_step[OF ch en np _ lt'])
        show "stackOk (d(n := dep)) (n # s')" using np ok' Cons by simp
        show "\<forall>i. se_depth (heap2 i) = (d(n := dep)) i"
          using dp1 by (simp add: heap2_def)
        show "\<forall>i. set (se_children (heap2 i))
                 = set (se_children (st_heap st i)) \<union> (if Some p = Some i then {n} else {})"
          using ch1 by (auto simp: heap2_def)
        show "set (st_entries st) = set (st_entries st) \<union> (if Some p = None then {n} else {})"
          by simp
      qed
      then show ?thesis unfolding ae using False Cons by (simp add: heap2_def)
    qed
  qed
qed


lemma initial_inv: "summaryInv initialSummaryState"
  by (simp add: summaryInv_def initialSummaryState_def depthOf_def nearestShallower_Some_iff)

lemma initial_items: "heapItems initialSummaryState = []"
  by (simp add: heapItems_def initialSummaryState_def)

lemma addEntry_count: "st_count (addEntry st title path lno dep) = Suc (st_count st)"
  by (simp add: addEntry_def Let_def split: list.splits)

lemma addEntry_new:
  "se_line (st_heap (addEntry st title path lno dep) (st_count st)) = lno
   \<and> se_depth (st_heap (addEntry st title path lno dep) (st_count st)) = dep"
  by (simp add: addEntry_def Let_def split: list.splits)

lemma addEntry_old:
  "i \<noteq> st_count st \<Longrightarrow>
   se_line (st_heap (addEntry st title path lno dep) i) = se_line (st_heap st i)
   \<and> se_depth (st_heap (addEntry st title path lno dep) i) = se_depth (st_heap st i)"
  by (simp add: addEntry_def Let_def split: list.splits)

lemma addEntry_items:
  "heapItems (addEntry st title path lno dep) = heapItems st @ [(lno, dep)]"
proof -
  have "map (\<lambda>i. (se_line (st_heap (addEntry st title path lno dep) i),
                   se_depth (st_heap (addEntry st title path lno dep) i))) [0..<st_count st]
        = map (\<lambda>i. (se_line (st_heap st i), se_depth (st_heap st i))) [0..<st_count st]"
    by (rule map_cong) (simp_all add: addEntry_old)
  then show ?thesis
    by (simp add: heapItems_def addEntry_count addEntry_new)
qed

lemma cleanLinkPath_returns: "\<exists>r. cleanLinkPath dec l = Inr r"
  by (cases "dec l") (simp_all add: cleanLinkPath_def decodeLink_def)

lemma summaryLoop_inv:
  assumes "summaryInv st"
  shows "\<exists>st'. summaryLoop dec k ls st = Inr st' \<and> summaryInv st'
               \<and> heapItems st' = heapItems st @ listItems k ls"
  using assms
proof (induction ls arbitrary: k st)
  case Nil
  then show ?case by simp
next
  case (Cons l ls)
  show ?case
  proof (cases "entryMatch l")
    case None
    with Cons.IH[OF Cons.prems, of "Suc k"] show ?thesis by simp
  next
    case (Some m)
    obtain indent title rawPath where m: "m = (indent, title, rawPath)" by (cases m) auto
    obtain path where p: "cleanLinkPath dec (trim rawPath) = Inr path"
      using cleanLinkPath_returns by blast
    let ?st1 = "addEntry st (trim title) path (Suc k) (length indent div 2)"
    have i1: "summaryInv ?st1" using Cons.prems by (rule addEntry_inv)
    from Cons.IH[OF i1, of "Suc k"] obtain st' where
      st': "summaryLoop dec (Suc k) ls ?st1 = Inr st'" "summaryInv st'"
           "heapItems st' = heapItems ?st1 @ listItems (Suc k) ls"
      by blast
    have "summaryLoop dec k (l # ls) st = Inr st'"
      using Some m p st'(1) by simp
    moreover have "heapItems st' = heapItems st @ listItems k (l # ls)"
      using Some m st'(3) by (simp add: addEntry_items)
    ultimately show ?thesis using st'(2) by blast
  qed
qed

text \<open>
  Claim C9. In the forest returned by \<open>parseSummary\<close>, the entries are the list items of the
  file, one per matching line, with the depth of the indentation width divided by 2. Every
  entry is a child of the nearest preceding entry that is strictly less deep, and of no other
  entry; it is a root exactly when there is no such preceding entry. Consequently every child
  is strictly deeper than its parent. This holds for every content of the file, however the
  lines are indented; and \<open>parseSummary\<close> returns whenever the file can be read.
\<close>

theorem parseSummary_forest:
  assumes "fs summaryPath = Some content"
  shows "\<exists>st. parseSummary fs dec summaryPath = Inr st
            \<and> heapItems st = listItems 0 (splitOn CHR 0x0A content)
            \<and> (\<forall>j<st_count st.
                  case nearestShallower (depthOf st) j of
                    Some i \<Rightarrow> j \<in> set (se_children (st_heap st i)) \<and> j \<notin> set (st_entries st)
                              \<and> (\<forall>k. k \<noteq> i \<longrightarrow> j \<notin> set (se_children (st_heap st k)))
                  | None \<Rightarrow> j \<in> set (st_entries st)
                            \<and> (\<forall>k. j \<notin> set (se_children (st_heap st k))))
            \<and> (\<forall>i j. j \<in> set (se_children (st_heap st i))
                  \<longrightarrow> j < st_count st \<and> depthOf st i < depthOf st j)
            \<and> (\<forall>j\<in>set (st_entries st). j < st_count st)"
proof -
  from summaryLoop_inv[OF initial_inv, of dec 0 "splitOn CHR 0x0A content"]
  obtain st where st: "summaryLoop dec 0 (splitOn CHR 0x0A content) initialSummaryState = Inr st"
      "summaryInv st" "heapItems st = listItems 0 (splitOn CHR 0x0A content)"
    by (auto simp: initial_items)
  have r: "parseSummary fs dec summaryPath = Inr st"
    using assms st(1) by (simp add: parseSummary_def readFile_def)
  have ch: "\<And>i j. (j \<in> set (se_children (st_heap st i)))
                 = (j < st_count st \<and> nearestShallower (depthOf st) j = Some i)"
    using st(2) by (simp add: summaryInv_def)
  have en: "\<And>j. (j \<in> set (st_entries st))
                 = (j < st_count st \<and> nearestShallower (depthOf st) j = None)"
    using st(2) by (simp add: summaryInv_def)
  have a: "\<forall>j<st_count st.
             case nearestShallower (depthOf st) j of
               Some i \<Rightarrow> j \<in> set (se_children (st_heap st i)) \<and> j \<notin> set (st_entries st)
                         \<and> (\<forall>k. k \<noteq> i \<longrightarrow> j \<notin> set (se_children (st_heap st k)))
             | None \<Rightarrow> j \<in> set (st_entries st) \<and> (\<forall>k. j \<notin> set (se_children (st_heap st k)))"
    by (auto simp: ch en split: option.splits)
  have b: "\<forall>i j. j \<in> set (se_children (st_heap st i))
             \<longrightarrow> j < st_count st \<and> depthOf st i < depthOf st j"
    by (auto simp: ch nearestShallower_Some_iff)
  have c: "\<forall>j\<in>set (st_entries st). j < st_count st"
    by (simp add: en)
  from r st(3) a b c show ?thesis by blast
qed

theorem parseSummary_forest_witness:
  "[''SUMMARY.md'' \<mapsto> ''* [A](a.md)'' @ [CHR 0x0A] @ ''      * [C](c.md)'' @ [CHR 0x0A]
        @ ''  * [B](b.md)'' @ [CHR 0x0A] @ ''    * [D](d.md)''] ''SUMMARY.md''
     = Some (''* [A](a.md)'' @ [CHR 0x0A] @ ''      * [C](c.md)'' @ [CHR 0x0A]
        @ ''  * [B](b.md)'' @ [CHR 0x0A] @ ''    * [D](d.md)'')
   \<and> (\<exists>st. parseSummary
          [''SUMMARY.md'' \<mapsto> ''* [A](a.md)'' @ [CHR 0x0A] @ ''      * [C](c.md)'' @ [CHR 0x0A]
              @ ''  * [B](b.md)'' @ [CHR 0x0A] @ ''    * [D](d.md)'']
          sampleDecoder ''SUMMARY.md'' = Inr st
        \<and> heapItems st = [(1, 0), (2, 3), (3, 1), (4, 2)]
        \<and> (\<forall>i j. j \<in> set (se_children (st_heap st i)) \<longrightarrow> depthOf st i < depthOf st j))"
proof -
  let ?c = "''* [A](a.md)'' @ [CHR 0x0A] @ ''      * [C](c.md)'' @ [CHR 0x0A]
        @ ''  * [B](b.md)'' @ [CHR 0x0A] @ ''    * [D](d.md)''"
  have h: "[''SUMMARY.md'' \<mapsto> ?c] ''SUMMARY.md'' = Some ?c" by simp
  have l: "listItems 0 (splitOn CHR 0x0A ?c) = [(1, 0), (2, 3), (3, 1), (4, 2)]" by code_simp
  from parseSummary_forest
    [where fs = "[''SUMMARY.md'' \<mapsto> ?c]" and summaryPath = "''SUMMARY.md''" and content = ?c
       and dec = sampleDecoder, OF h]
  obtain st where
    st: "parseSummary [''SUMMARY.md'' \<mapsto> ?c] sampleDecoder ''SUMMARY.md'' = Inr st"
        "heapItems st = listItems 0 (splitOn CHR 0x0A ?c)"
        "\<forall>i j. j \<in> set (se_children (st_heap st i))
           \<longrightarrow> j < st_count st \<and> depthOf st i < depthOf st j"
    by blast
  from st(2) l have "heapItems st = [(1, 0), (2, 3), (3, 1), (4, 2)]" by simp
  with st(1,3) h show ?thesis by blast
qed

text \<open>
  The same file, evaluated: the over-indented entry \<^verbatim>\<open>C\<close> and the entry \<^verbatim>\<open>B\<close> both hang under
  \<^verbatim>\<open>A\<close>, and \<^verbatim>\<open>D\<close> hangs under \<^verbatim>\<open>B\<close>.
\<close>

lemma parseSummary_example:
  "(case parseSummary
          [''SUMMARY.md'' \<mapsto> ''* [A](a.md)'' @ [CHR 0x0A] @ ''      * [C](c.md)'' @ [CHR 0x0A]
              @ ''  * [B](b.md)'' @ [CHR 0x0A] @ ''    * [D](d.md)'']
          sampleDecoder ''SUMMARY.md'' of
      Inl e \<Rightarrow> False
    | Inr st \<Rightarrow> map (\<lambda>i. se_children (st_heap st i)) [0..<st_count st] = [[1, 2], [], [3], []]
               \<and> st_entries st = [0])"
  by code_simp

section \<open>Rewriting two links of one file\<close>

lemma linkTextMatch_ge2: "linkTextMatch link s = Some k \<Longrightarrow> 2 \<le> k"
  by (auto simp: linkTextMatch_def Let_def split: if_splits option.splits)

lemma replaceLinks_no_match:
  "findLink link l = None \<Longrightarrow> replaceLinks link t seen l = l"
proof (induction l arbitrary: seen)
  case Nil
  show ?case by simp
next
  case (Cons c cs)
  from Cons.prems have m: "linkTextMatch link (c # cs) = None"
    by (cases "linkTextMatch link (c # cs)") auto
  with Cons.prems have "findLink link cs = None" by simp
  then have "replaceLinks link t (seen @ [c]) cs = cs" by (rule Cons.IH)
  with m show ?case by simp
qed

lemma findLink_split:
  "findLink link l = Some (pre, m, post) \<Longrightarrow> l = pre @ m @ post"
proof (induction l arbitrary: pre)
  case Nil
  then show ?case by simp
next
  case (Cons c cs)
  show ?case
  proof (cases "linkTextMatch link (c # cs)")
    case (Some k)
    with Cons.prems have "pre = []" "m = take k (c # cs)" "post = drop k (c # cs)"
      by simp_all
    then show ?thesis by simp
  next
    case None
    with Cons.prems obtain p' where
      f: "findLink link cs = Some (p', m, post)" and pre: "pre = c # p'"
      by (auto split: prod.splits)
    from Cons.IH[OF f] pre show ?thesis by simp
  qed
qed

lemma replaceLinks_first_match:
  "findLink link l = Some (pre, m, post) \<Longrightarrow>
     replaceLinks link t seen l
       = pre @ expandReplacement t m (seen @ pre) post @ replaceLinks link t (seen @ pre @ m) post"
proof (induction l arbitrary: seen pre)
  case Nil
  then show ?case by simp
next
  case (Cons c cs)
  show ?case
  proof (cases "linkTextMatch link (c # cs)")
    case (Some k)
    then have k: "2 \<le> k" by (rule linkTextMatch_ge2)
    then have d: "drop k (c # cs) = drop (k - 1) cs" by (cases k) auto
    from Cons.prems Some have p: "pre = []" "m = take k (c # cs)" "post = drop k (c # cs)"
      by simp_all
    have "replaceLinks link t seen (c # cs)
             = expandReplacement t (take k (c # cs)) seen (drop (k - 1) cs)
               @ replaceLinks link t (seen @ take k (c # cs)) (drop (k - 1) cs)"
      using Some by simp
    then show ?thesis unfolding p d by simp
  next
    case None
    with Cons.prems obtain p' where
      f: "findLink link cs = Some (p', m, post)" and pre: "pre = c # p'"
      by (auto split: prod.splits)
    have ih: "replaceLinks link t (seen @ [c]) cs
             = p' @ expandReplacement t m ((seen @ [c]) @ p') post
               @ replaceLinks link t ((seen @ [c]) @ p' @ m) post"
      by (rule Cons.IH[OF f])
    have "replaceLinks link t seen (c # cs) = c # replaceLinks link t (seen @ [c]) cs"
      using None by simp
    then show ?thesis unfolding ih pre by simp
  qed
qed

lemma expandReplacement_plain:
  "CHR ''$'' \<notin> set t \<Longrightarrow> expandReplacement t m b a = t"
  by (induction t m b a rule: expandReplacement.induct) auto

lemma replaceLinks_once:
  assumes "findLink link l = Some (pre, m, post)" and "findLink link post = None"
      and "CHR ''$'' \<notin> set t"
  shows "replaceLinks link t [] l = pre @ t @ post"
proof -
  have "replaceLinks link t [] l
        = pre @ expandReplacement t m ([] @ pre) post @ replaceLinks link t ([] @ pre @ m) post"
    by (rule replaceLinks_first_match[OF assms(1)])
  then show ?thesis
    by (simp only: expandReplacement_plain[OF assms(3)] replaceLinks_no_match[OF assms(2)])
qed

lemma lineFix_no_match:
  "findLink (vr_link (fst f)) l = None \<Longrightarrow> lineFix cwd f l = l"
  by (simp add: lineFix_def replaceLink_def replaceLinks_no_match)

lemma lineFix_alt:
  "lineFix cwd f l =
     (let n = replaceLinks (vr_link (fst f)) (''](''  @ newTargetOf cwd f @ '')'') [] l
      in if n \<noteq> l \<and> n \<noteq> [] then n else l)"
  by (simp add: lineFix_def replaceLink_def Let_def)

lemma lineFix_once:
  assumes "findLink (vr_link (fst f)) l = Some (pre, m, post)"
      and "findLink (vr_link (fst f)) post = None"
      and "CHR ''$'' \<notin> set (newTargetOf cwd f)"
  shows "lineFix cwd f l = pre @ ''](''  @ newTargetOf cwd f @ '')'' @ post"
proof -
  define t where "t = ''](''  @ newTargetOf cwd f @ '')''"
  have d: "CHR ''$'' \<notin> set t" using assms(3) by (simp add: t_def)
  have r: "replaceLinks (vr_link (fst f)) t [] l = pre @ t @ post"
    by (rule replaceLinks_once[OF assms(1,2) d])
  have ne: "pre @ t @ post \<noteq> []" by (simp add: t_def)
  have a: "lineFix cwd f l =
     (let n = replaceLinks (vr_link (fst f)) t [] l in if n \<noteq> l \<and> n \<noteq> [] then n else l)"
    unfolding t_def by (rule lineFix_alt)
  have "lineFix cwd f l = pre @ t @ post"
  proof (cases "pre @ t @ post = l")
    case True
    then show ?thesis unfolding a r Let_def by simp
  next
    case False
    with ne show ?thesis unfolding a r Let_def by simp
  qed
  then show ?thesis by (simp add: t_def)
qed

lemma fixStep_lines:
  "fst (fixStep cwd ls f)
     = (if inRange f ls then ls[lineIndexOf f := lineFix cwd f (ls ! lineIndexOf f)] else ls)"
  by (auto simp: fixStep_def Let_def inRange_def lineIndexOf_def lineFix_def
      split: option.splits)

lemma fixStep_result_cong:
  assumes "length ls' = length ls" and "ls' ! lineIndexOf f = ls ! lineIndexOf f"
  shows "snd (fixStep cwd ls' f) = snd (fixStep cwd ls f)"
  using assms by (simp add: fixStep_def Let_def lineIndexOf_def split: option.splits)

lemma fixStep_failed_no_match:
  assumes "inRange f ls" and "findLink (vr_link (fst f)) (ls ! lineIndexOf f) = None"
  shows "\<not> fr_success (snd (fixStep cwd ls f))"
  using assms
  by (simp add: fixStep_def Let_def inRange_def lineIndexOf_def replaceLink_def
      replaceLinks_no_match failedFix_def)


lemma inRange_index:
  "inRange f ls \<Longrightarrow> lineIndexOf f < length ls \<and> int (lineIndexOf f) + 1 = link_line (vr_link (fst f))"
  by (auto simp: inRange_def lineIndexOf_def)

lemma fixStep_result_indep:
  assumes "length a = length ls"
      and "inRange f ls \<longrightarrow> a ! lineIndexOf f = ls ! lineIndexOf f"
  shows "snd (fixStep cwd a f) = snd (fixStep cwd ls f)"
proof (cases "inRange f ls")
  case True
  with assms show ?thesis by (intro fixStep_result_cong) simp_all
next
  case False
  with assms(1) show ?thesis
    by (auto simp: fixStep_def Let_def inRange_def)
qed

lemma inRange_length: "length a = length ls \<Longrightarrow> inRange f a = inRange f ls"
  by (simp add: inRange_def)

lemma two_steps:
  fixes cwd :: string and ls :: "string list" and g h :: linkFix
  assumes ne: "link_line (vr_link (fst g)) \<noteq> link_line (vr_link (fst h))"
  defines "a \<equiv> fst (fixStep cwd ls g)"
  defines "b \<equiv> fst (fixStep cwd a h)"
  shows "snd (fixStep cwd a h) = snd (fixStep cwd ls h)"
    and "length b = length ls"
    and "\<forall>i<length ls. int i + 1 \<noteq> link_line (vr_link (fst g))
            \<and> int i + 1 \<noteq> link_line (vr_link (fst h)) \<longrightarrow> b ! i = ls ! i"
    and "inRange g ls \<longrightarrow> b ! lineIndexOf g = lineFix cwd g (ls ! lineIndexOf g)"
    and "inRange h ls \<longrightarrow> b ! lineIndexOf h = lineFix cwd h (ls ! lineIndexOf h)"
proof -
  have a: "a = (if inRange g ls then ls[lineIndexOf g := lineFix cwd g (ls ! lineIndexOf g)] else ls)"
    unfolding a_def by (rule fixStep_lines)
  have la: "length a = length ls" by (simp add: a)
  have b: "b = (if inRange h ls then a[lineIndexOf h := lineFix cwd h (a ! lineIndexOf h)] else a)"
    unfolding b_def using fixStep_lines[of cwd a h] inRange_length[OF la, of h] by simp
  have dist: "lineIndexOf g \<noteq> lineIndexOf h" if "inRange g ls" "inRange h ls"
    using that ne inRange_index[of g ls] inRange_index[of h ls] by auto
  have ah: "inRange h ls \<longrightarrow> a ! lineIndexOf h = ls ! lineIndexOf h"
    using dist by (auto simp: a)
  show "snd (fixStep cwd a h) = snd (fixStep cwd ls h)"
    by (rule fixStep_result_indep[OF la ah])
  show "length b = length ls" by (simp add: b la)
  show "\<forall>i<length ls. int i + 1 \<noteq> link_line (vr_link (fst g))
            \<and> int i + 1 \<noteq> link_line (vr_link (fst h)) \<longrightarrow> b ! i = ls ! i"
  proof (intro allI impI)
    fix i assume i: "i < length ls"
      and n: "int i + 1 \<noteq> link_line (vr_link (fst g)) \<and> int i + 1 \<noteq> link_line (vr_link (fst h))"
    have ig: "inRange g ls \<longrightarrow> i \<noteq> lineIndexOf g" using n inRange_index[of g ls] by auto
    have ih: "inRange h ls \<longrightarrow> i \<noteq> lineIndexOf h" using n inRange_index[of h ls] by auto
    have "b ! i = a ! i" using ih by (auto simp: b)
    also have "a ! i = ls ! i" using ig by (auto simp: a)
    finally show "b ! i = ls ! i" .
  qed
  show "inRange g ls \<longrightarrow> b ! lineIndexOf g = lineFix cwd g (ls ! lineIndexOf g)"
  proof
    assume r: "inRange g ls"
    then have lt: "lineIndexOf g < length ls" using inRange_index by blast
    have "b ! lineIndexOf g = a ! lineIndexOf g" using dist[OF r] by (auto simp: b)
    also have "\<dots> = lineFix cwd g (ls ! lineIndexOf g)" using r lt by (simp add: a)
    finally show "b ! lineIndexOf g = lineFix cwd g (ls ! lineIndexOf g)" .
  qed
  show "inRange h ls \<longrightarrow> b ! lineIndexOf h = lineFix cwd h (ls ! lineIndexOf h)"
  proof
    assume r: "inRange h ls"
    then have lt: "lineIndexOf h < length a" using inRange_index la by simp
    have "b ! lineIndexOf h = lineFix cwd h (a ! lineIndexOf h)" using r lt by (simp add: b)
    with ah r show "b ! lineIndexOf h = lineFix cwd h (ls ! lineIndexOf h)" by simp
  qed
qed

lemma fileLoop_single:
  assumes "fst w (joinPaths [projectRoot, src]) = Some content"
  shows "fileLoop cwd projectRoot [(src, [g, h])] w []
         = (let ls = splitOn CHR 0x0A content;
                sorted = sort_key (\<lambda>f. - link_line (vr_link (fst f))) [g, h];
                a = fixStep cwd ls (hd sorted);
                b = fixStep cwd (fst a) (hd (tl sorted));
                out = joinWith [CHR 0x0A] (fst b)
            in (Inr [snd a, snd b],
                ((fst w)(joinPaths [projectRoot, src] \<mapsto> out),
                 snd w @ [(joinPaths [projectRoot, src], out)])))"
  using assms
  by (cases "link_line (vr_link (fst h)) \<le> link_line (vr_link (fst g))")
     (simp_all add: readFile_def writeFile_def Let_def split: prod.splits)


lemma groupByFile_pair:
  "vr_sourceFile (fst f1) = src \<Longrightarrow> vr_sourceFile (fst f2) = src \<Longrightarrow>
   groupByFile [f1, f2] = [(src, [f1, f2])]"
  by (simp add: groupByFile_def)

lemma sort_pair:
  fixes f1 f2 :: linkFix
  assumes "link_line (vr_link (fst f1)) \<noteq> link_line (vr_link (fst f2))"
  shows "sort_key (\<lambda>f. - link_line (vr_link (fst f))) [f1, f2]
         = (if link_line (vr_link (fst f1)) > link_line (vr_link (fst f2)) then [f1, f2]
            else [f2, f1])"
  using assms by auto

lemma target_line_props:
  fixes f :: linkFix
  assumes r: "inRange f ls \<longrightarrow> b ! lineIndexOf f = lineFix cwd f (ls ! lineIndexOf f)"
  shows "(\<forall>pre m post.
            inRange f ls \<and> findLink (vr_link (fst f)) (ls ! lineIndexOf f) = Some (pre, m, post)
            \<and> findLink (vr_link (fst f)) post = None \<and> CHR ''$'' \<notin> set (newTargetOf cwd f)
            \<longrightarrow> ls ! lineIndexOf f = pre @ m @ post
                \<and> b ! lineIndexOf f = pre @ ''](''  @ newTargetOf cwd f @ '')'' @ post)
       \<and> (inRange f ls \<and> findLink (vr_link (fst f)) (ls ! lineIndexOf f) = None
            \<longrightarrow> b ! lineIndexOf f = ls ! lineIndexOf f \<and> \<not> fr_success (snd (fixStep cwd ls f)))"
proof (intro conjI allI impI)
  fix pre m post
  assume a: "inRange f ls \<and> findLink (vr_link (fst f)) (ls ! lineIndexOf f) = Some (pre, m, post)
            \<and> findLink (vr_link (fst f)) post = None \<and> CHR ''$'' \<notin> set (newTargetOf cwd f)"
  then show "ls ! lineIndexOf f = pre @ m @ post" using findLink_split by blast
  from a have "lineFix cwd f (ls ! lineIndexOf f) = pre @ ''](''  @ newTargetOf cwd f @ '')'' @ post"
    by (intro lineFix_once) simp_all
  with a r show "b ! lineIndexOf f = pre @ ''](''  @ newTargetOf cwd f @ '')'' @ post" by simp
next
  assume a: "inRange f ls \<and> findLink (vr_link (fst f)) (ls ! lineIndexOf f) = None"
  then show "b ! lineIndexOf f = ls ! lineIndexOf f" using r by (simp add: lineFix_no_match)
  from a show "\<not> fr_success (snd (fixStep cwd ls f))"
    by (intro fixStep_failed_no_match) simp_all
qed

text \<open>
  Claim C4, as stated, fails. The file below has two broken links on lines 1 and 3. The link on
  line 1 is written with a Markdown escape, and the parser stores its cleaned target
  \<^verbatim>\<open>my_old.md\<close>. The text \<^verbatim>\<open>](my_old.md)\<close> is not on line 1, so that fix is reported failed and
  line 1 stays as it is: it does not contain its new target \<^verbatim>\<open>./my_new.md\<close>. The fix of line 3
  is applied, and it comes first in the results.
\<close>

theorem applyFixes_rewrite_mismatch_counterexample:
  "cleanLinkPath sampleDecoder (''my'' @ [CHR 0x5C] @ ''_old.md'') = Inr ''my_old.md''
   \<and> fst (applyFixes ''/work''
      ([''/p/docs/a.md'' \<mapsto> ''[x](my'' @ [CHR 0x5C] @ ''_old.md)'' @ [CHR 0x0A] @ ''text'' @ [CHR 0x0A] @ ''[y](gone.md)''], [])
      [(\<lparr>vr_sourceFile = ''docs/a.md'',
        vr_link = \<lparr>link_raw = ''[x](my'' @ [CHR 0x5C] @ ''_old.md)'', link_text = ''x'', link_target = ''my_old.md'', link_anchor = None, link_line = 1,
          link_column = 1, link_type = Internal\<rparr>,
        vr_status = Broken, vr_resolvedPath = Some ''docs/my_old.md'',
        vr_error = Some ''Target not found: docs/my_old.md''\<rparr>,
       \<lparr>confidence = Medium, suggestedPath = ''docs/my_new.md'', reason = ''File with same name found in different location'',
        redirectEntry = None\<rparr>),
       (\<lparr>vr_sourceFile = ''docs/a.md'',
        vr_link = \<lparr>link_raw = ''[y](gone.md)'', link_text = ''y'', link_target = ''gone.md'', link_anchor = None, link_line = 3,
          link_column = 1, link_type = Internal\<rparr>,
        vr_status = Broken, vr_resolvedPath = Some ''docs/gone.md'',
        vr_error = Some ''Target not found: docs/gone.md''\<rparr>,
       \<lparr>confidence = Medium, suggestedPath = ''docs/here.md'', reason = ''File with same name found in different location'',
        redirectEntry = None\<rparr>)]
      ''/p'')
     = Inr [\<lparr>fr_sourceFile = ''docs/a.md'',
        fr_originalLink = \<lparr>link_raw = ''[y](gone.md)'', link_text = ''y'', link_target = ''gone.md'', link_anchor = None, link_line = 3,
          link_column = 1, link_type = Internal\<rparr>,
        fr_newPath = ''docs/here.md'', fr_success = True, fr_error = None, fr_redirectAdded = False\<rparr>,
            \<lparr>fr_sourceFile = ''docs/a.md'',
        fr_originalLink = \<lparr>link_raw = ''[x](my'' @ [CHR 0x5C] @ ''_old.md)'', link_text = ''x'', link_target = ''my_old.md'', link_anchor = None, link_line = 1,
          link_column = 1, link_type = Internal\<rparr>,
        fr_newPath = ''docs/my_new.md'', fr_success = False, fr_error = Some ''Could not find link to replace'', fr_redirectAdded = False\<rparr>]
   \<and> snd (snd (applyFixes ''/work''
      ([''/p/docs/a.md'' \<mapsto> ''[x](my'' @ [CHR 0x5C] @ ''_old.md)'' @ [CHR 0x0A] @ ''text'' @ [CHR 0x0A] @ ''[y](gone.md)''], [])
      [(\<lparr>vr_sourceFile = ''docs/a.md'',
        vr_link = \<lparr>link_raw = ''[x](my'' @ [CHR 0x5C] @ ''_old.md)'', link_text = ''x'', link_target = ''my_old.md'', link_anchor = None, link_line = 1,
          link_column = 1, link_type = Internal\<rparr>,
        vr_status = Broken, vr_resolvedPath = Some ''docs/my_old.md'',
        vr_error = Some ''Target not found: docs/my_old.md''\<rparr>,
       \<lparr>confidence = Medium, suggestedPath = ''docs/my_new.md'', reason = ''File with same name found in different location'',
        redirectEntry = None\<rparr>),
       (\<lparr>vr_sourceFile = ''docs/a.md'',
        vr_link = \<lparr>link_raw = ''[y](gone.md)'', link_text = ''y'', link_target = ''gone.md'', link_anchor = None, link_line = 3,
          link_column = 1, link_type = Internal\<rparr>,
        vr_status = Broken, vr_resolvedPath = Some ''docs/gone.md'',
        vr_error = Some ''Target not found: docs/gone.md''\<rparr>,
       \<lparr>confidence = Medium, suggestedPath = ''docs/here.md'', reason = ''File with same name found in different location'',
        redirectEntry = None\<rparr>)]
      ''/p''))
     = [(''/p/docs/a.md'', ''[x](my'' @ [CHR 0x5C] @ ''_old.md)'' @ [CHR 0x0A] @ ''text'' @ [CHR 0x0A] @ ''[y](./here.md)'')]"
  by code_simp

text \<open>
  Claim C4, amended. For a file with two fixes on two different lines, \<open>applyFixes\<close> writes
  the file once, after both fixes, and every line other than the two target lines is identical
  to the original. A target line on which the link text occurs once becomes the same line with
  that text replaced by \<^verbatim>\<open>](\<close>, the new target and \<^verbatim>\<open>)\<close>, for a new target without a dollar
  sign; a target line on which the link text does not occur stays as it is, and its fix is
  reported failed. The results come in descending order of line number, each being the result
  of its fix on the original lines.
\<close>

theorem applyFixes_two_lines:
  assumes rd: "fst w (joinPaths [projectRoot, src]) = Some content"
      and s1: "vr_sourceFile (fst f1) = src" and s2: "vr_sourceFile (fst f2) = src"
      and ne: "link_line (vr_link (fst f1)) \<noteq> link_line (vr_link (fst f2))"
  shows "\<exists>ls'.
     applyFixes cwd w [f1, f2] projectRoot
       = (Inr (map (\<lambda>f. snd (fixStep cwd (splitOn CHR 0x0A content) f))
                 (if link_line (vr_link (fst f1)) > link_line (vr_link (fst f2))
                  then [f1, f2] else [f2, f1])),
          ((fst w)(joinPaths [projectRoot, src] \<mapsto> joinWith [CHR 0x0A] ls'),
           snd w @ [(joinPaths [projectRoot, src], joinWith [CHR 0x0A] ls')]))
     \<and> length ls' = length (splitOn CHR 0x0A content)
     \<and> (\<forall>i<length ls'. int i + 1 \<noteq> link_line (vr_link (fst f1))
            \<and> int i + 1 \<noteq> link_line (vr_link (fst f2))
            \<longrightarrow> ls' ! i = splitOn CHR 0x0A content ! i)
     \<and> (\<forall>f\<in>{f1, f2}. \<forall>pre m post.
            inRange f (splitOn CHR 0x0A content)
            \<and> findLink (vr_link (fst f)) (splitOn CHR 0x0A content ! lineIndexOf f)
                = Some (pre, m, post)
            \<and> findLink (vr_link (fst f)) post = None \<and> CHR ''$'' \<notin> set (newTargetOf cwd f)
            \<longrightarrow> splitOn CHR 0x0A content ! lineIndexOf f = pre @ m @ post
                \<and> ls' ! lineIndexOf f = pre @ ''](''  @ newTargetOf cwd f @ '')'' @ post)
     \<and> (\<forall>f\<in>{f1, f2}.
            inRange f (splitOn CHR 0x0A content)
            \<and> findLink (vr_link (fst f)) (splitOn CHR 0x0A content ! lineIndexOf f) = None
            \<longrightarrow> ls' ! lineIndexOf f = splitOn CHR 0x0A content ! lineIndexOf f
                \<and> \<not> fr_success (snd (fixStep cwd (splitOn CHR 0x0A content) f)))"
proof -
  let ?ls = "splitOn CHR 0x0A content"
  let ?path = "joinPaths [projectRoot, src]"
  have main: "\<exists>ls'.
     fileLoop cwd projectRoot [(src, [f1, f2])] w []
       = (Inr [snd (fixStep cwd ?ls g), snd (fixStep cwd ?ls h)],
          ((fst w)(?path \<mapsto> joinWith [CHR 0x0A] ls'), snd w @ [(?path, joinWith [CHR 0x0A] ls')]))
     \<and> length ls' = length ?ls
     \<and> (\<forall>i<length ?ls. int i + 1 \<noteq> link_line (vr_link (fst g))
            \<and> int i + 1 \<noteq> link_line (vr_link (fst h)) \<longrightarrow> ls' ! i = ?ls ! i)
     \<and> (inRange g ?ls \<longrightarrow> ls' ! lineIndexOf g = lineFix cwd g (?ls ! lineIndexOf g))
     \<and> (inRange h ?ls \<longrightarrow> ls' ! lineIndexOf h = lineFix cwd h (?ls ! lineIndexOf h))"
    if srt: "sort_key (\<lambda>f. - link_line (vr_link (fst f))) [f1, f2] = [g, h]"
      and gh: "link_line (vr_link (fst g)) \<noteq> link_line (vr_link (fst h))" for g h
  proof -
    define a where "a = fst (fixStep cwd ?ls g)"
    define b where "b = fst (fixStep cwd a h)"
    note t = two_steps[OF gh, where cwd = cwd and ls = ?ls, folded a_def b_def]
    have "fileLoop cwd projectRoot [(src, [f1, f2])] w []
          = (Inr [snd (fixStep cwd ?ls g), snd (fixStep cwd a h)],
             ((fst w)(?path \<mapsto> joinWith [CHR 0x0A] b), snd w @ [(?path, joinWith [CHR 0x0A] b)]))"
      unfolding fileLoop_single[OF rd] Let_def srt a_def b_def by simp
    with t show ?thesis by auto
  qed
  have grp: "applyFixes cwd w [f1, f2] projectRoot = fileLoop cwd projectRoot [(src, [f1, f2])] w []"
    by (simp add: applyFixes_def groupByFile_pair[OF s1 s2])
  show ?thesis
  proof (cases "link_line (vr_link (fst f1)) > link_line (vr_link (fst f2))")
    case True
    then have srt: "sort_key (\<lambda>f. - link_line (vr_link (fst f))) [f1, f2] = [f1, f2]"
      using sort_pair[OF ne] by simp
    from main[OF srt ne] obtain ls' where
      l: "fileLoop cwd projectRoot [(src, [f1, f2])] w []
           = (Inr [snd (fixStep cwd ?ls f1), snd (fixStep cwd ?ls f2)],
              ((fst w)(?path \<mapsto> joinWith [CHR 0x0A] ls'), snd w @ [(?path, joinWith [CHR 0x0A] ls')]))"
         "length ls' = length ?ls"
         "\<forall>i<length ?ls. int i + 1 \<noteq> link_line (vr_link (fst f1))
            \<and> int i + 1 \<noteq> link_line (vr_link (fst f2)) \<longrightarrow> ls' ! i = ?ls ! i"
         "inRange f1 ?ls \<longrightarrow> ls' ! lineIndexOf f1 = lineFix cwd f1 (?ls ! lineIndexOf f1)"
         "inRange f2 ?ls \<longrightarrow> ls' ! lineIndexOf f2 = lineFix cwd f2 (?ls ! lineIndexOf f2)"
      by blast
    note p1 = target_line_props[OF l(4)] and p2 = target_line_props[OF l(5)]
    show ?thesis
      apply (rule exI[of _ ls'])
      unfolding grp l(1) using True l(2,3) p1 p2 by simp
  next
    case False
    then have srt: "sort_key (\<lambda>f. - link_line (vr_link (fst f))) [f1, f2] = [f2, f1]"
      using sort_pair[OF ne] by simp
    from main[OF srt ne[symmetric]] obtain ls' where
      l: "fileLoop cwd projectRoot [(src, [f1, f2])] w []
           = (Inr [snd (fixStep cwd ?ls f2), snd (fixStep cwd ?ls f1)],
              ((fst w)(?path \<mapsto> joinWith [CHR 0x0A] ls'), snd w @ [(?path, joinWith [CHR 0x0A] ls')]))"
         "length ls' = length ?ls"
         "\<forall>i<length ?ls. int i + 1 \<noteq> link_line (vr_link (fst f2))
            \<and> int i + 1 \<noteq> link_line (vr_link (fst f1)) \<longrightarrow> ls' ! i = ?ls ! i"
         "inRange f2 ?ls \<longrightarrow> ls' ! lineIndexOf f2 = lineFix cwd f2 (?ls ! lineIndexOf f2)"
         "inRange f1 ?ls \<longrightarrow> ls' ! lineIndexOf f1 = lineFix cwd f1 (?ls ! lineIndexOf f1)"
      by blast
    note p1 = target_line_props[OF l(5)] and p2 = target_line_props[OF l(4)]
    show ?thesis
      apply (rule exI[of _ ls'])
      unfolding grp l(1) using False l(2,3) p1 p2 by simp
  qed
qed

theorem applyFixes_two_lines_witness:
  "\<exists>ls'. snd (snd (applyFixes ''/work''
               ([''/p/docs/a.md'' \<mapsto> ''see [x](old.md#a)'' @ [CHR 0x0A] @ ''text'' @ [CHR 0x0A] @ ''and [g](../gone.md) here''], [])
               [(\<lparr>vr_sourceFile = ''docs/a.md'',
        vr_link = \<lparr>link_raw = ''[x](old.md#a)'', link_text = ''x'', link_target = ''old.md'', link_anchor = Some ''a'', link_line = 1,
          link_column = 1, link_type = Internal\<rparr>,
        vr_status = Broken, vr_resolvedPath = Some ''docs/old.md'',
        vr_error = Some ''Target not found: docs/old.md''\<rparr>,
       \<lparr>confidence = Medium, suggestedPath = ''docs/new.md'', reason = ''File with same name found in different location'',
        redirectEntry = None\<rparr>),
                (\<lparr>vr_sourceFile = ''docs/a.md'',
        vr_link = \<lparr>link_raw = ''[g](../gone.md)'', link_text = ''g'', link_target = ''../gone.md'', link_anchor = None, link_line = 3,
          link_column = 1, link_type = Internal\<rparr>,
        vr_status = Broken, vr_resolvedPath = Some ''gone.md'',
        vr_error = Some ''Target not found: gone.md''\<rparr>,
       \<lparr>confidence = Medium, suggestedPath = ''here.md'', reason = ''File with same name found in different location'',
        redirectEntry = None\<rparr>)]
               ''/p''))
            = [(''/p/docs/a.md'', joinWith [CHR 0x0A] ls')]
          \<and> length ls' = 3 \<and> ls' ! 0 = ''see [x](./new.md#a)'' \<and> ls' ! 1 = ''text''
          \<and> ls' ! 2 = ''and [g](../here.md) here''"
proof -
  let ?c = "''see [x](old.md#a)'' @ [CHR 0x0A] @ ''text'' @ [CHR 0x0A] @ ''and [g](../gone.md) here''"
  let ?w = "([''/p/docs/a.md'' \<mapsto> ?c], []) :: world"
  let ?f1 = "(\<lparr>vr_sourceFile = ''docs/a.md'',
        vr_link = \<lparr>link_raw = ''[x](old.md#a)'', link_text = ''x'', link_target = ''old.md'', link_anchor = Some ''a'', link_line = 1,
          link_column = 1, link_type = Internal\<rparr>,
        vr_status = Broken, vr_resolvedPath = Some ''docs/old.md'',
        vr_error = Some ''Target not found: docs/old.md''\<rparr>,
       \<lparr>confidence = Medium, suggestedPath = ''docs/new.md'', reason = ''File with same name found in different location'',
        redirectEntry = None\<rparr>)"
  let ?f2 = "(\<lparr>vr_sourceFile = ''docs/a.md'',
        vr_link = \<lparr>link_raw = ''[g](../gone.md)'', link_text = ''g'', link_target = ''../gone.md'', link_anchor = None, link_line = 3,
          link_column = 1, link_type = Internal\<rparr>,
        vr_status = Broken, vr_resolvedPath = Some ''gone.md'',
        vr_error = Some ''Target not found: gone.md''\<rparr>,
       \<lparr>confidence = Medium, suggestedPath = ''here.md'', reason = ''File with same name found in different location'',
        redirectEntry = None\<rparr>)"
  have j: "joinPaths [''/p'', ''docs/a.md''] = ''/p/docs/a.md''" by code_simp
  have rd: "fst ?w (joinPaths [''/p'', ''docs/a.md'']) = Some ?c" by (simp add: j)
  have s1: "vr_sourceFile (fst ?f1) = ''docs/a.md''" by simp
  have s2: "vr_sourceFile (fst ?f2) = ''docs/a.md''" by simp
  have ne: "link_line (vr_link (fst ?f1)) \<noteq> link_line (vr_link (fst ?f2))" by simp
  have sp: "splitOn CHR 0x0A ?c = [''see [x](old.md#a)'', ''text'', ''and [g](../gone.md) here'']"
    by code_simp
  have r1: "inRange ?f1 (splitOn CHR 0x0A ?c)" and r2: "inRange ?f2 (splitOn CHR 0x0A ?c)"
    by (simp_all add: sp inRange_def)
  have i1: "lineIndexOf ?f1 = 0" and i2: "lineIndexOf ?f2 = 2"
    by (simp_all add: lineIndexOf_def)
  have m1: "findLink (vr_link (fst ?f1)) ''see [x](old.md#a)'' = Some (''see [x'', ''](old.md#a)'', [])"
    by code_simp
  have m2: "findLink (vr_link (fst ?f2)) ''and [g](../gone.md) here''
            = Some (''and [g'', ''](../gone.md)'', '' here'')"
    by code_simp
  have e1: "findLink (vr_link (fst ?f1)) [] = None" by simp
  have e2: "findLink (vr_link (fst ?f2)) '' here'' = None" by code_simp
  have t1: "newTargetOf ''/work'' ?f1 = ''./new.md#a''" by code_simp
  have t2: "newTargetOf ''/work'' ?f2 = ''../here.md''" by code_simp
  from applyFixes_two_lines [OF rd s1 s2 ne, of "''/work''"] obtain ls' where
    a: "applyFixes ''/work'' ?w [?f1, ?f2] ''/p''
          = (Inr (map (\<lambda>f. snd (fixStep ''/work'' (splitOn CHR 0x0A ?c) f))
                   (if link_line (vr_link (fst ?f1)) > link_line (vr_link (fst ?f2))
                    then [?f1, ?f2] else [?f2, ?f1])),
             ((fst ?w)(joinPaths [''/p'', ''docs/a.md''] \<mapsto> joinWith [CHR 0x0A] ls'),
              snd ?w @ [(joinPaths [''/p'', ''docs/a.md''], joinWith [CHR 0x0A] ls')]))"
    and len: "length ls' = length (splitOn CHR 0x0A ?c)"
    and frame: "\<forall>i<length ls'. int i + 1 \<noteq> link_line (vr_link (fst ?f1))
            \<and> int i + 1 \<noteq> link_line (vr_link (fst ?f2))
            \<longrightarrow> ls' ! i = splitOn CHR 0x0A ?c ! i"
    and tgt: "\<forall>f\<in>{?f1, ?f2}. \<forall>pre m post.
            inRange f (splitOn CHR 0x0A ?c)
            \<and> findLink (vr_link (fst f)) (splitOn CHR 0x0A ?c ! lineIndexOf f)
                = Some (pre, m, post)
            \<and> findLink (vr_link (fst f)) post = None \<and> CHR ''$'' \<notin> set (newTargetOf ''/work'' f)
            \<longrightarrow> splitOn CHR 0x0A ?c ! lineIndexOf f = pre @ m @ post
                \<and> ls' ! lineIndexOf f = pre @ ''](''  @ newTargetOf ''/work'' f @ '')'' @ post"
    by blast
  have w: "snd (snd (applyFixes ''/work'' ?w [?f1, ?f2] ''/p''))
           = [(''/p/docs/a.md'', joinWith [CHR 0x0A] ls')]"
    unfolding a by (simp add: j)
  have l3: "length ls' = 3" using len by (simp add: sp)
  have "ls' ! 1 = splitOn CHR 0x0A ?c ! 1" using frame l3 by simp
  then have mid: "ls' ! 1 = ''text''" by (simp add: sp)
  have d1: "CHR ''$'' \<notin> set (newTargetOf ''/work'' ?f1)" unfolding t1 by simp
  have d2: "CHR ''$'' \<notin> set (newTargetOf ''/work'' ?f2)" unfolding t2 by simp
  have g1: "findLink (vr_link (fst ?f1)) (splitOn CHR 0x0A ?c ! lineIndexOf ?f1)
            = Some (''see [x'', ''](old.md#a)'', [])"
    unfolding sp i1 using m1 by simp
  have g2: "findLink (vr_link (fst ?f2)) (splitOn CHR 0x0A ?c ! lineIndexOf ?f2)
            = Some (''and [g'', ''](../gone.md)'', '' here'')"
    unfolding sp i2 using m2 by simp
  have "ls' ! lineIndexOf ?f1 = ''see [x'' @ ''](''  @ newTargetOf ''/work'' ?f1 @ '')'' @ []"
    using tgt r1 g1 e1 d1 by blast
  then have first: "ls' ! 0 = ''see [x](./new.md#a)''" unfolding i1 t1 by simp
  have "ls' ! lineIndexOf ?f2 = ''and [g'' @ ''](''  @ newTargetOf ''/work'' ?f2 @ '')'' @ '' here''"
    using tgt r2 g2 e2 d2 by blast
  then have third: "ls' ! 2 = ''and [g](../here.md) here''" unfolding i2 t2 by simp
  from w l3 first mid third show ?thesis by blast
qed

text \<open>
  The replacement string is handed to \<^verbatim>\<open>String.prototype.replace\<close> unescaped, although the
  pattern is escaped: a new target with a dollar pattern does not arrive on the line as it is.
\<close>

lemma replaceLink_dollar_pattern:
  "replaceLink ''[x](old.md#a$$b)''
     \<lparr>link_raw = ''[x](old.md#a$$b)'', link_text = ''x'', link_target = ''old.md'',
      link_anchor = Some ''a$$b'', link_line = 1, link_column = 1, link_type = Internal\<rparr>
     ''./new.md#a$$b''
   = Some ''[x](./new.md#a$b)''"
  by code_simp

section \<open>The redirect flag of a fix result\<close>

text \<open>
  Claim C3 asks that a fix result has \<open>redirectAdded\<close> only if a redirect entry of that very fix
  was appended. Here two fixes succeed. The target \<^verbatim>\<open>../old.md\<close> of the first one climbs to the
  parent directory, so \<open>generateRedirectEntries\<close> skips it; the second one yields the only
  entry, from \<^verbatim>\<open>gone\<close> to \<^verbatim>\<open>docs/here.md\<close>, and one line is appended to the redirect table. Both
  results are flagged nevertheless: \<open>applyFixesWithRedirects\<close> flags every successful result
  once anything was appended.
\<close>

theorem applyFixesWithRedirects_flags_skipped_fix:
  "fst (applyFixesWithRedirects ''/work''
      ([''/p/docs/a.md'' \<mapsto> ''[x](../old.md)'' @ [CHR 0x0A] @ ''[y](./gone.md)'',
        ''/p/.gitbook.yaml'' \<mapsto> ''root: ./'' @ [CHR 0x0A] @ ''redirects:'' @ [CHR 0x0A] @ ''  a: b.md''], [])
      [(\<lparr>vr_sourceFile = ''docs/a.md'',
        vr_link = \<lparr>link_raw = ''[x](../old.md)'', link_text = ''x'', link_target = ''../old.md'', link_anchor = None, link_line = 1,
          link_column = 1, link_type = Internal\<rparr>,
        vr_status = Broken, vr_resolvedPath = Some ''old.md'',
        vr_error = Some ''Target not found: old.md''\<rparr>,
       \<lparr>confidence = Medium, suggestedPath = ''new.md'', reason = ''File with same name found in different location'',
        redirectEntry = None\<rparr>),
       (\<lparr>vr_sourceFile = ''docs/a.md'',
        vr_link = \<lparr>link_raw = ''[y](./gone.md)'', link_text = ''y'', link_target = ''./gone.md'', link_anchor = None, link_line = 2,
          link_column = 1, link_type = Internal\<rparr>,
        vr_status = Broken, vr_resolvedPath = Some ''docs/gone.md'',
        vr_error = Some ''Target not found: docs/gone.md''\<rparr>,
       \<lparr>confidence = Medium, suggestedPath = ''docs/here.md'', reason = ''File with same name found in different location'',
        redirectEntry = None\<rparr>)]
      ''/p'' ''/p/.gitbook.yaml'' True)
     = Inr ([\<lparr>fr_sourceFile = ''docs/a.md'',
        fr_originalLink = \<lparr>link_raw = ''[y](./gone.md)'', link_text = ''y'', link_target = ''./gone.md'', link_anchor = None, link_line = 2,
          link_column = 1, link_type = Internal\<rparr>,
        fr_newPath = ''docs/here.md'', fr_success = True, fr_error = None, fr_redirectAdded = True\<rparr>,
             \<lparr>fr_sourceFile = ''docs/a.md'',
        fr_originalLink = \<lparr>link_raw = ''[x](../old.md)'', link_text = ''x'', link_target = ''../old.md'', link_anchor = None, link_line = 1,
          link_column = 1, link_type = Internal\<rparr>,
        fr_newPath = ''new.md'', fr_success = True, fr_error = None, fr_redirectAdded = True\<rparr>], 1)
   \<and> snd (snd (applyFixesWithRedirects ''/work''
      ([''/p/docs/a.md'' \<mapsto> ''[x](../old.md)'' @ [CHR 0x0A] @ ''[y](./gone.md)'',
        ''/p/.gitbook.yaml'' \<mapsto> ''root: ./'' @ [CHR 0x0A] @ ''redirects:'' @ [CHR 0x0A] @ ''  a: b.md''], [])
      [(\<lparr>vr_sourceFile = ''docs/a.md'',
        vr_link = \<lparr>link_raw = ''[x](../old.md)'', link_text = ''x'', link_target = ''../old.md'', link_anchor = None, link_line = 1,
          link_column = 1, link_type = Internal\<rparr>,
        vr_status = Broken, vr_resolvedPath = Some ''old.md'',
        vr_error = Some ''Target not found: old.md''\<rparr>,
       \<lparr>confidence = Medium, suggestedPath = ''new.md'', reason = ''File with same name found in different location'',
        redirectEntry = None\<rparr>),
       (\<lparr>vr_sourceFile = ''docs/a.md'',
        vr_link = \<lparr>link_raw = ''[y](./gone.md)'', link_text = ''y'', link_target = ''./gone.md'', link_anchor = None, link_line = 2,
          link_column = 1, link_type = Internal\<rparr>,
        vr_status = Broken, vr_resolvedPath = Some ''docs/gone.md'',
        vr_error = Some ''Target not found: docs/gone.md''\<rparr>,
       \<lparr>confidence = Medium, suggestedPath = ''docs/here.md'', reason = ''File with same name found in different location'',
        redirectEntry = None\<rparr>)]
      ''/p'' ''/p/.gitbook.yaml'' True))
     = [(''/p/docs/a.md'', ''[x](../new.md)'' @ [CHR 0x0A] @ ''[y](./here.md)''),
        (''/p/.gitbook.yaml'', ''root: ./'' @ [CHR 0x0A] @ ''redirects:'' @ [CHR 0x0A] @ ''  a: b.md'' @ [CHR 0x0A] @ ''  gone: docs/here.md'')]"
  by code_simp

end
